theory Spec2Isabelle
  imports Complex_Main "HOL-Library.Char_ord" "HOL-Library.List_Lexorder"
begin

section \<open>Python values, errors and string helpers\<close>

text \<open>
  The exceptions that the functions of \<^verbatim>\<open>fairdiplomacy/data/dataset.py\<close> raise or catch.
  A raising call is the value \<open>Inl e\<close>, a returning call is \<open>Inr v\<close>.
\<close>

datatype py_error =
  KeyError | IndexError | ValueError | AssertionError | RuntimeError | NotImplementedError
  | TypeError

text \<open>
  \<^verbatim>\<open>str.split()\<close> without arguments: the maximal runs of non-whitespace characters.
  Order strings are ASCII, and the ASCII characters for which \<^verbatim>\<open>str.isspace\<close> holds are
  the codes 9 to 13, 28 to 31 and 32.
\<close>

definition is_space :: "char \<Rightarrow> bool" where
  "is_space c = (of_char c \<in> set [9, 10, 11, 12, 13, 28, 29, 30, 31, 32 :: nat])"

fun split_acc :: "string \<Rightarrow> string \<Rightarrow> string list" where
  "split_acc cur [] = (if cur = [] then [] else [cur])"
| "split_acc cur (c # cs) =
     (if is_space c then (if cur = [] then split_acc [] cs else cur # split_acc [] cs)
      else split_acc (cur @ [c]) cs)"

definition split_ws :: "string \<Rightarrow> string list" where
  "split_ws s = split_acc [] s"

text \<open>
  \<^verbatim>\<open>s.replace(old, "")\<close>: every occurrence of \<open>old\<close> is deleted, scanning from the left
  without overlaps; an empty \<open>old\<close> leaves the string as it is.
\<close>

function remove_all :: "string \<Rightarrow> string \<Rightarrow> string" where
  "remove_all old s =
     (if old = [] \<or> s = [] then s
      else if take (length old) s = old then remove_all old (drop (length old) s)
      else hd s # remove_all old (tl s))"
  by pat_completeness auto
termination
  by (relation "measure (\<lambda>(old, s). length s)") auto

declare remove_all.simps [simp del]

text \<open>\<^verbatim>\<open>sep.join(xs)\<close>.\<close>

fun join :: "string \<Rightarrow> string list \<Rightarrow> string" where
  "join sep [] = []"
| "join sep [x] = x"
| "join sep (x # y # ys) = x @ sep @ join sep (y # ys)"

text \<open>
  \<^verbatim>\<open>xs.index(x)\<close> raises \<^verbatim>\<open>ValueError\<close> when \<open>x\<close> is not in the list, and gives the first
  position otherwise.
\<close>

fun index_of :: "'a list \<Rightarrow> 'a \<Rightarrow> nat option" where
  "index_of [] x = None"
| "index_of (y # ys) x = (if y = x then Some 0 else map_option Suc (index_of ys x))"

definition py_index :: "'a list \<Rightarrow> 'a \<Rightarrow> py_error + nat" where
  "py_index xs x = (case index_of xs x of None \<Rightarrow> Inl ValueError | Some i \<Rightarrow> Inr i)"

text \<open>\<^verbatim>\<open>xs[i]\<close> for a Python int \<open>i\<close>: a negative index counts from the end.\<close>

definition py_nth :: "'a list \<Rightarrow> int \<Rightarrow> py_error + 'a" where
  "py_nth xs i =
     (if 0 \<le> i \<and> i < int (length xs) then Inr (xs ! nat i)
      else if i < 0 \<and> - int (length xs) \<le> i then Inr (xs ! nat (int (length xs) + i))
      else Inl IndexError)"

section \<open>The constant tables\<close>

text \<open>
  \<^verbatim>\<open>dataset.py\<close> imports \<^verbatim>\<open>LOCS\<close>, \<^verbatim>\<open>MAX_SEQ_LEN\<close>, \<^verbatim>\<open>EOS_IDX\<close>, \<^verbatim>\<open>ORDER_VOCABULARY\<close>,
  \<^verbatim>\<open>ORDER_VOCABULARY_TO_IDX\<close> and \<^verbatim>\<open>MAX_VALID_LEN\<close> from modules that are not part of
  the sources at hand. They are parameters of every function below: the theorems hold
  for every value of them. (\<^verbatim>\<open>len(POWERS)\<close> is the \<open>N_POWERS\<close> field.)
\<close>

record env =
  LOCS :: "string list"
  ORDER_VOCABULARY :: "string list"
  ORDER_VOCABULARY_TO_IDX :: "string \<Rightarrow> int option"
  EOS_IDX :: int
  MAX_SEQ_LEN :: nat
  MAX_VALID_LEN :: nat
  N_POWERS :: nat

text \<open>\<^verbatim>\<open>ORDER_VOCABULARY_TO_IDX[order]\<close>: a missing key raises \<^verbatim>\<open>KeyError\<close>.\<close>

definition vocab_lookup :: "'a env_scheme \<Rightarrow> string \<Rightarrow> py_error + int" where
  "vocab_lookup e ord =
     (case ORDER_VOCABULARY_TO_IDX e ord of None \<Rightarrow> Inl KeyError | Some i \<Rightarrow> Inr i)"

section \<open>\<^verbatim>\<open>smarter_order_index\<close>\<close>

text \<open>
  The loop \<^verbatim>\<open>for suffix in ["/NC", "/EC", "/SC", "/WC"]: order = order.replace(suffix, "")\<close>.
\<close>

definition coast_suffixes :: "string list" where
  "coast_suffixes = [''/NC'', ''/EC'', ''/SC'', ''/WC'']"

definition strip_coasts :: "string \<Rightarrow> string" where
  "strip_coasts ord = fold remove_all coast_suffixes ord"

text \<open>
  The \<^verbatim>\<open>try\<close> returns the direct lookup; only a \<^verbatim>\<open>KeyError\<close> enters the handler, whose
  own lookup is not guarded.
\<close>

definition smarter_order_index :: "'a env_scheme \<Rightarrow> string \<Rightarrow> py_error + int" where
  "smarter_order_index e ord =
     (case vocab_lookup e ord of
        Inr i \<Rightarrow> Inr i
      | Inl KeyError \<Rightarrow> vocab_lookup e (strip_coasts ord)
      | Inl err \<Rightarrow> Inl err)"

section \<open>\<^verbatim>\<open>encode_power_actions\<close>\<close>

text \<open>
  \<^verbatim>\<open>len(order.split()) < 3\<close> and \<^verbatim>\<open>order.split()[2] == "B"\<close>. The second test is only
  evaluated in the \<^verbatim>\<open>elif\<close>, where every order has at least three fields.
\<close>

definition short_order :: "string \<Rightarrow> bool" where
  "short_order ord = (length (split_ws ord) < 3)"

definition is_build :: "string \<Rightarrow> bool" where
  "is_build ord = (split_ws ord ! 2 = ''B'')"

text \<open>
  The loop of the \<^verbatim>\<open>else\<close> branch: an order whose lookup raises \<^verbatim>\<open>KeyError\<close> is skipped
  (\<^verbatim>\<open>continue\<close>), any other exception would leave the function.
\<close>

fun resolve_each :: "'a env_scheme \<Rightarrow> string list \<Rightarrow> py_error + int list" where
  "resolve_each e [] = Inr []"
| "resolve_each e (ord # rest) =
     (case smarter_order_index e ord of
        Inl KeyError \<Rightarrow> resolve_each e rest
      | Inl err \<Rightarrow> Inl err
      | Inr i \<Rightarrow> (case resolve_each e rest of Inl err \<Rightarrow> Inl err | Inr is \<Rightarrow> Inr (i # is)))"

text \<open>
  The \<^verbatim>\<open>if\<close>/\<^verbatim>\<open>elif\<close>/\<^verbatim>\<open>else\<close> chain that fills \<^verbatim>\<open>order_idxs\<close>. \<open>Inr None\<close> stands for
  the two early \<^verbatim>\<open>return y_actions, False\<close> (a short order, an unknown joint build order),
  \<open>Inl AssertionError\<close> for the failed \<^verbatim>\<open>assert all(order.split()[2] == "B" ...)\<close>.
\<close>

definition resolve_orders :: "'a env_scheme \<Rightarrow> string list \<Rightarrow> py_error + int list option" where
  "resolve_orders e orders =
     (if list_ex short_order orders then Inr None
      else if list_ex is_build orders then
        (if list_all is_build orders then
           (case vocab_lookup e (join '';'' (sort orders)) of
              Inl KeyError \<Rightarrow> Inr None
            | Inl err \<Rightarrow> Inl err
            | Inr i \<Rightarrow> Inr (Some [i]))
         else Inl AssertionError)
      else (case resolve_each e orders of Inl err \<Rightarrow> Inl err | Inr is \<Rightarrow> Inr (Some is)))"

text \<open>
  The sort key \<^verbatim>\<open>LOCS.index(ORDER_VOCABULARY[idx].split()[1])\<close>, with the exceptions of
  its three steps.
\<close>

definition loc_key :: "'a env_scheme \<Rightarrow> int \<Rightarrow> py_error + nat" where
  "loc_key e idx =
     (case py_nth (ORDER_VOCABULARY e) idx of
        Inl err \<Rightarrow> Inl err
      | Inr s \<Rightarrow>
          (case py_nth (split_ws s) 1 of
             Inl err \<Rightarrow> Inl err
           | Inr l \<Rightarrow> py_index (LOCS e) l))"

text \<open>
  \<^verbatim>\<open>xs.sort(key=f)\<close> and \<^verbatim>\<open>sorted(xs, key=f)\<close>: the keys of all elements are computed
  first, from left to right, so the first failing key is the exception raised; the
  sort itself is stable, as \<open>sort_key\<close> is.
\<close>

fun keys_of :: "('a \<Rightarrow> py_error + nat) \<Rightarrow> 'a list \<Rightarrow> py_error + (nat \<times> 'a) list" where
  "keys_of f [] = Inr []"
| "keys_of f (x # xs) =
     (case f x of
        Inl err \<Rightarrow> Inl err
      | Inr k \<Rightarrow> (case keys_of f xs of Inl err \<Rightarrow> Inl err | Inr kxs \<Rightarrow> Inr ((k, x) # kxs)))"

definition py_sort_key :: "('a \<Rightarrow> py_error + nat) \<Rightarrow> 'a list \<Rightarrow> py_error + 'a list" where
  "py_sort_key f xs =
     (case keys_of f xs of Inl err \<Rightarrow> Inl err | Inr kxs \<Rightarrow> Inr (map snd (sort_key fst kxs)))"

text \<open>
  The loop \<^verbatim>\<open>for i, order_idx in enumerate(order_idxs)\<close>. The \<^verbatim>\<open>try\<close> block holds three
  places that raise \<^verbatim>\<open>IndexError\<close>: the row \<^verbatim>\<open>x_possible_actions[i]\<close> beyond the last row,
  \<^verbatim>\<open>nonzero()[0, 0]\<close> when no entry of the row equals the id, and the store
  \<^verbatim>\<open>y_actions[i] = cand_idx\<close> beyond the end of \<^verbatim>\<open>y_actions\<close>. Each returns the labels
  written so far, with \<^verbatim>\<open>False\<close>. The label is the position of the id in the row.
\<close>

fun fill_labels :: "int list list \<Rightarrow> nat \<Rightarrow> int list \<Rightarrow> int list \<Rightarrow> int list \<times> bool" where
  "fill_labels x i [] y = (y, True)"
| "fill_labels x i (order_idx # rest) y =
     (if i < length x then
        (case index_of (x ! i) order_idx of
           None \<Rightarrow> (y, False)
         | Some cand_idx \<Rightarrow>
             if i < length y then fill_labels x (Suc i) rest (y[i := int cand_idx])
             else (y, False))
      else (y, False))"

definition encode_power_actions ::
  "'a env_scheme \<Rightarrow> string list \<Rightarrow> int list list \<Rightarrow> py_error + (int list \<times> bool)" where
  "encode_power_actions e orders x_possible_actions =
     (let y_actions = replicate (MAX_SEQ_LEN e) (EOS_IDX e) in
      case resolve_orders e orders of
        Inl err \<Rightarrow> Inl err
      | Inr None \<Rightarrow> Inr (y_actions, False)
      | Inr (Some order_idxs) \<Rightarrow>
          (case py_sort_key (loc_key e) order_idxs of
             Inl err \<Rightarrow> Inl err
           | Inr sorted_idxs \<Rightarrow> Inr (fill_labels x_possible_actions 0 sorted_idxs y_actions)))"

subsection \<open>The ids of an order list as the specification describes them\<close>

text \<open>
  The specification resolves an order by the vocabulary, and on a miss by the
  vocabulary once more after the coastal suffixes are stripped (\<open>spec_resolve\<close>). The
  ids of an order list are, when some order is a build, the one id of the orders sorted
  and joined by a semicolon (none when the vocabulary misses it), and otherwise the ids
  of the orders that resolve, in the order of the list (\<open>spec_order_ids\<close>).
\<close>

definition spec_resolve :: "'a env_scheme \<Rightarrow> string \<Rightarrow> int option" where
  "spec_resolve e ord =
     (case ORDER_VOCABULARY_TO_IDX e ord of
        Some i \<Rightarrow> Some i
      | None \<Rightarrow> ORDER_VOCABULARY_TO_IDX e (strip_coasts ord))"

definition spec_order_ids :: "'a env_scheme \<Rightarrow> string list \<Rightarrow> int list option" where
  "spec_order_ids e orders =
     (if list_ex (\<lambda>ord. split_ws ord ! 2 = ''B'') orders
      then map_option (\<lambda>i. [i]) (ORDER_VOCABULARY_TO_IDX e (join '';'' (sort orders)))
      else Some (List.map_filter (spec_resolve e) orders))"

section \<open>\<^verbatim>\<open>get_valid_orders_impl\<close>\<close>

text \<open>Sequencing of calls that may raise: the first exception leaves the function.\<close>

definition py_bind :: "py_error + 'a \<Rightarrow> ('a \<Rightarrow> py_error + 'b) \<Rightarrow> py_error + 'b" where
  "py_bind m f = (case m of Inl err \<Rightarrow> Inl err | Inr v \<Rightarrow> f v)"

text \<open>A list comprehension \<^verbatim>\<open>[f(x) for x in xs]\<close> whose body may raise.\<close>

fun py_map :: "('a \<Rightarrow> py_error + 'b) \<Rightarrow> 'a list \<Rightarrow> py_error + 'b list" where
  "py_map f [] = Inr []"
| "py_map f (x # xs) =
     (case f x of
        Inl err \<Rightarrow> Inl err
      | Inr v \<Rightarrow> (case py_map f xs of Inl err \<Rightarrow> Inl err | Inr vs \<Rightarrow> Inr (v # vs)))"

text \<open>\<^verbatim>\<open>d[k]\<close> on a dict.\<close>

definition dict_get :: "('k \<Rightarrow> 'v option) \<Rightarrow> 'k \<Rightarrow> py_error + 'v" where
  "dict_get d k = (case d k of None \<Rightarrow> Inl KeyError | Some v \<Rightarrow> Inr v)"

text \<open>
  \<^verbatim>\<open>itertools.combinations(xs, r)\<close>: the sub-sequences of length \<open>r\<close>, those that contain the
  first element first. \<^verbatim>\<open>itertools.product(*c)\<close> is \<open>product_lists\<close>: one element of each
  list, the last position varying fastest.
\<close>

fun combinations :: "'a list \<Rightarrow> nat \<Rightarrow> 'a list list" where
  "combinations xs 0 = [[]]"
| "combinations [] (Suc r) = []"
| "combinations (x # xs) (Suc r) = map ((#) x) (combinations xs r) @ combinations xs (Suc r)"

text \<open>
  \<^verbatim>\<open>{k: [x for x in v if x != "WAIVE"] for k, v in all_possible_orders.items()}\<close>
\<close>

definition strip_waive :: "(string \<Rightarrow> string list option) \<Rightarrow> string \<Rightarrow> string list option" where
  "strip_waive all_possible_orders =
     (\<lambda>k. map_option (filter (\<lambda>x. x \<noteq> ''WAIVE'')) (all_possible_orders k))"

text \<open>
  The key of the location sort, \<^verbatim>\<open>LOCS.index(all_possible_orders[loc][0].split()[1])\<close>:
  the location named by the first candidate order of \<open>loc\<close>.
\<close>

definition loc_sort_key ::
  "'a env_scheme \<Rightarrow> (string \<Rightarrow> string list option) \<Rightarrow> string \<Rightarrow> py_error + nat" where
  "loc_sort_key e apo loc =
     py_bind (dict_get apo loc) (\<lambda>cands.
     py_bind (py_nth cands 0) (\<lambda>first.
     py_bind (py_nth (split_ws first) 1) (\<lambda>l.
     py_index (LOCS e) l)))"

text \<open>
  The orders of a build turn:
  \<^verbatim>\<open>[";".join(sorted(x)) for c in combinations(cands, n_builds) for x in product(*c)]\<close>.
  \<^verbatim>\<open>sorted\<close> compares strings by code point, as the order on \<open>string\<close> does.
\<close>

definition build_orders :: "string list list \<Rightarrow> nat \<Rightarrow> string list" where
  "build_orders cands n_builds =
     concat (map (\<lambda>c. map (\<lambda>x. join '';'' (sort x)) (product_lists c))
                 (combinations cands n_builds))"

text \<open>
  The slice assignments \<^verbatim>\<open>all_order_idxs[0, :n, :len(v)] = v.unsqueeze(0)\<close> and
  \<^verbatim>\<open>all_order_idxs[0, i, :len(v)] = v\<close> on the \<^verbatim>\<open>[1, MAX_SEQ_LEN, MAX_VALID_LEN]\<close> tensor,
  whose leading dimension of size 1 is left out here. A slice is cut at the end of the
  tensor, so when \<open>v\<close> has more than \<^verbatim>\<open>MAX_VALID_LEN\<close> entries the target is narrower than
  \<open>v\<close> and the copy raises \<^verbatim>\<open>RuntimeError\<close> (the shapes do not broadcast), except for a
  \<open>v\<close> of one entry, which broadcasts to any width. A row index \<open>i\<close> beyond the last row
  raises \<^verbatim>\<open>IndexError\<close>; a row slice \<^verbatim>\<open>:n\<close> is cut at the last row.
\<close>

definition fits :: "'a env_scheme \<Rightarrow> int list \<Rightarrow> bool" where
  "fits e v = (length v \<le> MAX_VALID_LEN e \<or> length v = 1)"

definition write_row :: "'a env_scheme \<Rightarrow> int list \<Rightarrow> int list \<Rightarrow> int list" where
  "write_row e v row = take (MAX_VALID_LEN e) (v @ drop (length v) row)"

definition set_rows ::
  "'a env_scheme \<Rightarrow> nat \<Rightarrow> int list \<Rightarrow> int list list \<Rightarrow> py_error + int list list" where
  "set_rows e n v rows =
     (if fits e v then
        Inr (map (\<lambda>i. if i < n then write_row e v (rows ! i) else rows ! i) [0..<length rows])
      else Inl RuntimeError)"

definition set_row ::
  "'a env_scheme \<Rightarrow> nat \<Rightarrow> int list \<Rightarrow> int list list \<Rightarrow> py_error + int list list" where
  "set_row e i v rows =
     (if i < length rows then
        (if fits e v then Inr (rows[i := write_row e v (rows ! i)]) else Inl RuntimeError)
      else Inl IndexError)"

text \<open>
  \<^verbatim>\<open>loc_idxs[0, [LOCS.index(l) for l in orderable_locs]] = -2\<close>: the indices are computed
  first (a location outside \<^verbatim>\<open>LOCS\<close> raises \<^verbatim>\<open>ValueError\<close>), then each is set.
\<close>

definition mark_locs :: "'a env_scheme \<Rightarrow> string list \<Rightarrow> int list \<Rightarrow> py_error + int list" where
  "mark_locs e orderable_locs loc_idxs =
     py_bind (py_map (py_index (LOCS e)) orderable_locs) (\<lambda>js.
     Inr (fold (\<lambda>j li. li[j := - 2]) js loc_idxs))"

text \<open>\<^verbatim>\<open>filter_orders_in_vocab\<close>: the orders found in the vocabulary, and their ids.\<close>

fun filter_orders_in_vocab ::
  "'a env_scheme \<Rightarrow> string list \<Rightarrow> py_error + (string list \<times> int list)" where
  "filter_orders_in_vocab e [] = Inr ([], [])"
| "filter_orders_in_vocab e (ord # rest) =
     (case smarter_order_index e ord of
        Inl KeyError \<Rightarrow> filter_orders_in_vocab e rest
      | Inl err \<Rightarrow> Inl err
      | Inr idx \<Rightarrow>
          (case filter_orders_in_vocab e rest of
             Inl err \<Rightarrow> Inl err
           | Inr (ret, idxs) \<Rightarrow> Inr (ord # ret, idx # idxs)))"

text \<open>
  The loop of the move phase, \<^verbatim>\<open>for i, loc in enumerate(orderable_locs)\<close>, on the pair of
  tensors it updates.
\<close>

fun move_phase ::
  "'a env_scheme \<Rightarrow> (string \<Rightarrow> string list option) \<Rightarrow> nat \<Rightarrow> string list
   \<Rightarrow> int list list \<Rightarrow> int list \<Rightarrow> py_error + (int list list \<times> int list)" where
  "move_phase e apo i [] rows loc_idxs = Inr (rows, loc_idxs)"
| "move_phase e apo i (loc # locs) rows loc_idxs =
     (case dict_get apo loc of
        Inl err \<Rightarrow> Inl err
      | Inr cands \<Rightarrow>
          (case filter_orders_in_vocab e cands of
             Inl err \<Rightarrow> Inl err
           | Inr (orders, order_idxs) \<Rightarrow>
               (case set_row e i (sort order_idxs) rows of
                  Inl err \<Rightarrow> Inl err
                | Inr rows' \<Rightarrow>
                    (case py_index (LOCS e) loc of
                       Inl err \<Rightarrow> Inl err
                     | Inr j \<Rightarrow> move_phase e apo (Suc i) locs rows' (loc_idxs[j := int i])))))"

text \<open>
  The function. Its dict arguments are maps; \<open>builds\<close> is
  \<^verbatim>\<open>game_state["builds"][power]["count"]\<close> as a map from the power (\<open>pwr\<close>). The result is the triple
  of the candidate table, the step assignment of the locations and the step count.
\<close>

definition get_valid_orders_impl ::
  "'a env_scheme \<Rightarrow> string \<Rightarrow> (string \<Rightarrow> string list option)
   \<Rightarrow> (string \<Rightarrow> string list option) \<Rightarrow> (string \<Rightarrow> int option)
   \<Rightarrow> py_error + (int list list \<times> int list \<times> int)" where
  "get_valid_orders_impl e pwr all_possible_orders all_orderable_locations builds =
     (let all_order_idxs = replicate (MAX_SEQ_LEN e) (replicate (MAX_VALID_LEN e) (EOS_IDX e));
          loc_idxs = replicate (length (LOCS e)) (- 1)
      in case all_orderable_locations pwr of
           None \<Rightarrow> Inr (all_order_idxs, loc_idxs, 0)
         | Some locs \<Rightarrow>
             (let apo = strip_waive all_possible_orders in
              py_bind (py_sort_key (loc_sort_key e apo) locs) (\<lambda>orderable_locs.
              py_bind (py_map (dict_get apo) orderable_locs) (\<lambda>cands.
              py_bind (dict_get builds pwr) (\<lambda>n_builds.
              if n_builds > 0 then
                py_bind (py_map (vocab_lookup e) (build_orders cands (nat n_builds))) (\<lambda>order_idxs.
                py_bind (set_rows e 1 (sort order_idxs) all_order_idxs) (\<lambda>rows.
                py_bind (mark_locs e orderable_locs loc_idxs) (\<lambda>loc_idxs'.
                Inr (rows, loc_idxs', n_builds))))
              else if n_builds < 0 then
                py_bind (filter_orders_in_vocab e (concat cands)) (\<lambda>(orders, order_idxs).
                py_bind (set_rows e (nat (- n_builds)) (sort order_idxs) all_order_idxs) (\<lambda>rows.
                py_bind (mark_locs e orderable_locs loc_idxs) (\<lambda>loc_idxs'.
                Inr (rows, loc_idxs', - n_builds))))
              else
                py_bind (move_phase e apo 0 orderable_locs all_order_idxs loc_idxs)
                  (\<lambda>(rows, loc_idxs'). Inr (rows, loc_idxs', int (length orderable_locs))))))))"

section \<open>\<^verbatim>\<open>encode_phase\<close>\<close>














section \<open>\<^verbatim>\<open>encode_weighted_sos_scores\<close>\<close>












section \<open>The \<^verbatim>\<open>Dataset\<close> class\<close>

text \<open>
  The encoded games are \<^verbatim>\<open>DataFields\<close> objects, a class of a module that is not part of
  the sources at hand. Its values are the type \<open>'g\<close>, and what the \<^verbatim>\<open>Dataset\<close> methods
  ask of them is a parameter: \<^verbatim>\<open>DataFields.cat\<close>, the mask \<^verbatim>\<open>g["valid_power_idxs"]\<close> (one
  row of booleans per phase), the truth value of the object (\<open>df_is_empty\<close>),
  \<^verbatim>\<open>len(g["x_board_state"])\<close>, and for \<^verbatim>\<open>validate_dataset\<close> the list of the field values,
  each as the pair of \<^verbatim>\<open>isinstance(e, TensorList)\<close> and \<^verbatim>\<open>len(e)\<close>.
\<close>

record 'g datafields_api =
  df_cat :: "'g list \<Rightarrow> 'g"
  df_valid_power_idxs :: "'g \<Rightarrow> bool list list"
  df_is_empty :: "'g \<Rightarrow> bool"
  df_len_x_board_state :: "'g \<Rightarrow> nat"
  df_field_lens :: "'g \<Rightarrow> (bool \<times> nat) list"

datatype game_id = IntId int | StrId string

text \<open>
  The fields that \<^verbatim>\<open>__init__\<close> sets to \<^verbatim>\<open>None\<close> and that pre-processing and
  \<^verbatim>\<open>from_merge\<close> populate, together with \<^verbatim>\<open>_preprocessed = True\<close>, are one optional
  component of the dataset: \<^verbatim>\<open>_preprocessed\<close> is "the component is there". The index
  tensors are lists of Python ints.
\<close>

record 'g built =
  game_idxs :: "int list"
  phase_idxs :: "int list"
  power_idxs :: "int list"
  x_idxs :: "int list"
  encoded_games :: 'g
  num_games :: nat
  num_phases :: nat
  num_elements :: nat

record 'g dataset =
  game_ids :: "game_id list"
  debug_only_opening_phase :: bool
  n_cf_agent_samples :: int
  built :: "'g built option"

definition preprocessed :: "('g, 'a) dataset_scheme \<Rightarrow> bool" where
  "preprocessed ds = (built ds \<noteq> None)"

text \<open>
  \<^verbatim>\<open>__len__\<close>: \<^verbatim>\<open>self.num_elements * self.n_cf_agent_samples\<close>; on a dataset that was not
  pre-processed \<^verbatim>\<open>num_elements\<close> is \<^verbatim>\<open>None\<close> and the product raises \<^verbatim>\<open>TypeError\<close>.
\<close>

definition dunder_len :: "('g, 'a) dataset_scheme \<Rightarrow> py_error + int" where
  "dunder_len ds =
     (case built ds of
        None \<Rightarrow> Inl TypeError
      | Some b \<Rightarrow> Inr (int (num_elements b) * n_cf_agent_samples ds))"

text \<open>
  \<^verbatim>\<open>len(dataset)\<close>: the builtin calls \<^verbatim>\<open>__len__\<close> and raises \<^verbatim>\<open>ValueError\<close> when the method
  returns a negative number. Counts and indices are taken to be in the range of a
  64-bit index (the range of \<^verbatim>\<open>torch.long\<close>): the conversions that raise beyond it are
  not part of the model.
\<close>

definition ds_len :: "('g, 'a) dataset_scheme \<Rightarrow> py_error + int" where
  "ds_len ds =
     (case dunder_len ds of
        Inl err \<Rightarrow> Inl err
      | Inr n \<Rightarrow> if n < 0 then Inl ValueError else Inr n)"





text \<open>
  \<^verbatim>\<open>preprocess\<close>. Its input here is the list that \<^verbatim>\<open>mp_encode_games\<close> returns: per game
  either \<^verbatim>\<open>(None, None)\<close> or the pair of the game id and its encoding. The two filters
  read \<^verbatim>\<open>g["valid_power_idxs"][0]\<close>, which raises \<^verbatim>\<open>IndexError\<close> for a game without a
  phase.
\<close>

definition first_phase_any :: "'g datafields_api \<Rightarrow> 'g \<Rightarrow> py_error + bool" where
  "first_phase_any api g =
     (case df_valid_power_idxs api g of
        [] \<Rightarrow> Inl IndexError
      | msk # _ \<Rightarrow> Inr (list_ex (\<lambda>b. b) msk))"

fun py_filter :: "('a \<Rightarrow> py_error + bool) \<Rightarrow> 'a list \<Rightarrow> py_error + 'a list" where
  "py_filter P [] = Inr []"
| "py_filter P (x # xs) =
     (case P x of
        Inl err \<Rightarrow> Inl err
      | Inr keep \<Rightarrow>
          (case py_filter P xs of
             Inl err \<Rightarrow> Inl err
           | Inr ys \<Rightarrow> Inr (if keep then x # ys else ys)))"

text \<open>\<^verbatim>\<open>valid_power_idxs.nonzero()[:, 0]\<close>: the positions of the set bits, ascending.\<close>

definition nonzero :: "bool list \<Rightarrow> nat list" where
  "nonzero msk = map fst (filter snd (enumerate 0 msk))"

text \<open>
  The two nested loops that build the index. A row of the index is
  \<open>(game_idx, phase_idx, power_idx, x_idx)\<close>; \<^verbatim>\<open>x_idx\<close> counts the phases of all games.
  The \<^verbatim>\<open>assert\<close> compares the size of every mask with \<^verbatim>\<open>len(POWERS)\<close>.
\<close>

fun index_phases ::
  "nat \<Rightarrow> nat \<Rightarrow> nat \<Rightarrow> nat \<Rightarrow> bool list list \<Rightarrow> py_error + (nat \<times> nat \<times> nat \<times> nat) list" where
  "index_phases np game_idx phase_idx x [] = Inr []"
| "index_phases np game_idx phase_idx x (msk # masks) =
     (if length msk \<noteq> np then Inl AssertionError
      else case index_phases np game_idx (Suc phase_idx) (Suc x) masks of
             Inl err \<Rightarrow> Inl err
           | Inr rest \<Rightarrow>
               Inr (map (\<lambda>pw. (game_idx, phase_idx, pw, x)) (nonzero msk) @ rest))"

fun index_games ::
  "'g datafields_api \<Rightarrow> nat \<Rightarrow> nat \<Rightarrow> nat \<Rightarrow> 'g list \<Rightarrow> py_error + (nat \<times> nat \<times> nat \<times> nat) list" where
  "index_games api np game_idx x [] = Inr []"
| "index_games api np game_idx x (g # gs) =
     (case index_phases np game_idx 0 x (df_valid_power_idxs api g) of
        Inl err \<Rightarrow> Inl err
      | Inr rows \<Rightarrow>
          (case index_games api np (Suc game_idx)
                  (x + length (df_valid_power_idxs api g)) gs of
             Inl err \<Rightarrow> Inl err
           | Inr rest \<Rightarrow> Inr (rows @ rest)))"

text \<open>\<^verbatim>\<open>validate_dataset\<close>, as the truth of its assertions.\<close>

definition validate_dataset :: "'a env_scheme \<Rightarrow> 'g datafields_api \<Rightarrow> 'g \<Rightarrow> nat \<Rightarrow> bool" where
  "validate_dataset e api g n_phases =
     list_all (\<lambda>(is_tensor_list, n).
                 if is_tensor_list then n = n_phases * N_POWERS e * MAX_SEQ_LEN e
                 else n = n_phases)
              (df_field_lens api g)"

definition preprocess ::
  "'a env_scheme \<Rightarrow> 'g datafields_api \<Rightarrow> 'g dataset \<Rightarrow> (game_id \<times> 'g) option list
   \<Rightarrow> py_error + 'g dataset" where
  "preprocess e api ds encoded_game_tuples =
     (if debug_only_opening_phase ds then Inl AssertionError
      else
        py_bind (py_filter (first_phase_any api)
                   (map snd (List.map_filter (\<lambda>t. t) encoded_game_tuples))) (\<lambda>kept.
        py_bind (py_filter (\<lambda>t. first_phase_any api (snd t))
                   (List.map_filter (\<lambda>t. t) encoded_game_tuples)) (\<lambda>kept_tuples.
        py_bind (index_games api (N_POWERS e) 0 0 kept) (\<lambda>rows.
        (let cat = df_cat api kept;
             n_phases = (if df_is_empty api cat then 0 else df_len_x_board_state api cat);
             b = \<lparr>game_idxs = map (\<lambda>(g, p, pw, x). int g) rows,
                  phase_idxs = map (\<lambda>(g, p, pw, x). int p) rows,
                  power_idxs = map (\<lambda>(g, p, pw, x). int pw) rows,
                  x_idxs = map (\<lambda>(g, p, pw, x). int x) rows,
                  encoded_games = cat,
                  num_games = length kept,
                  num_phases = n_phases,
                  num_elements = length rows\<rparr>
         in if validate_dataset e api cat n_phases
            then Inr (ds\<lparr>game_ids := map fst kept_tuples, built := Some b\<rparr>)
            else Inl AssertionError)))))"

text \<open>
  \<^verbatim>\<open>from_merge\<close>. The loop over the inputs raises at the first one that is not
  single-sample or not pre-processed. \<^verbatim>\<open>torch.cat\<close> of an empty list of tensors raises
  \<^verbatim>\<open>RuntimeError\<close>. The merged dataset is made by \<^verbatim>\<open>Dataset(...)\<close> with the defaults
  \<^verbatim>\<open>n_cf_agent_samples=1\<close> and \<^verbatim>\<open>debug_only_opening_phase=False\<close>.
\<close>

fun check_mergeable :: "'g dataset list \<Rightarrow> py_error + 'g built list" where
  "check_mergeable [] = Inr []"
| "check_mergeable (d # ds) =
     (if n_cf_agent_samples d \<noteq> 1 then Inl NotImplementedError
      else case built d of
             None \<Rightarrow> Inl NotImplementedError
           | Some b \<Rightarrow>
               (case check_mergeable ds of Inl err \<Rightarrow> Inl err | Inr bs \<Rightarrow> Inr (b # bs)))"

text \<open>\<^verbatim>\<open>np.cumsum([0] + [f(d) for d in datasets[:-1]])\<close>.\<close>

fun offsets :: "nat \<Rightarrow> nat list \<Rightarrow> nat list" where
  "offsets acc [] = []"
| "offsets acc (n # ns) = acc # offsets (acc + n) ns"

definition torch_cat :: "int list list \<Rightarrow> py_error + int list" where
  "torch_cat ts = (if ts = [] then Inl RuntimeError else Inr (concat ts))"

definition from_merge :: "'g datafields_api \<Rightarrow> 'g dataset list \<Rightarrow> py_error + 'g dataset" where
  "from_merge api datasets =
     py_bind (check_mergeable datasets) (\<lambda>bs.
     (let game_offsets = offsets 0 (map num_games bs);
          phase_offsets = offsets 0 (map num_phases bs)
      in py_bind (torch_cat (map (\<lambda>(b, off). map (\<lambda>v. v + int off) (game_idxs b))
                               (zip bs game_offsets))) (\<lambda>m_game_idxs.
         py_bind (torch_cat (map phase_idxs bs)) (\<lambda>m_phase_idxs.
         py_bind (torch_cat (map power_idxs bs)) (\<lambda>m_power_idxs.
         py_bind (torch_cat (map (\<lambda>(b, off). map (\<lambda>v. v + int off) (x_idxs b))
                               (zip bs phase_offsets))) (\<lambda>m_x_idxs.
         Inr \<lparr>game_ids = concat (map game_ids datasets),
              debug_only_opening_phase = False,
              n_cf_agent_samples = 1,
              built = Some \<lparr>game_idxs = m_game_idxs,
                            phase_idxs = m_phase_idxs,
                            power_idxs = m_power_idxs,
                            x_idxs = m_x_idxs,
                            encoded_games = df_cat api (map encoded_games bs),
                            num_games = sum_list (map num_games bs),
                            num_phases = sum_list (map num_phases bs),
                            num_elements = sum_list (map num_elements bs)\<rparr>\<rparr>))))))"

subsection \<open>The index as the specification describes it\<close>





text \<open>
  \<open>preprocessed_from e api ds shards\<close>: the dataset \<open>ds\<close> is pre-processed, and \<open>shards\<close>
  are the lists of games retained by the calls of \<^verbatim>\<open>preprocess\<close> it comes from. These are
  the two ways in which \<^verbatim>\<open>_preprocessed\<close> becomes true.
\<close>

inductive preprocessed_from ::
  "'a env_scheme \<Rightarrow> 'g datafields_api \<Rightarrow> 'g dataset \<Rightarrow> 'g list list \<Rightarrow> bool"
  for e :: "'a env_scheme" and api :: "'g datafields_api" where
  by_preprocess:
    "preprocess e api ds0 tuples = Inr ds
     \<Longrightarrow> py_filter (first_phase_any api) (map snd (List.map_filter (\<lambda>t. t) tuples)) = Inr kept
     \<Longrightarrow> preprocessed_from e api ds [kept]"
| by_merge:
    "list_all2 (preprocessed_from e api) datasets shards
     \<Longrightarrow> from_merge api datasets = Inr merged
     \<Longrightarrow> preprocessed_from e api merged (concat shards)"


section \<open>A small instance of the tables\<close>

text \<open>
  A six-location, seven-order instance of the tables, used to run the functions on
  concrete inputs. The id of an order is its position in the vocabulary.
\<close>

definition demo_vocab :: "string list" where
  "demo_vocab =
     [''A PAR H'', ''A PAR - BUR'', ''F STP - BAR'', ''F BRE H'', ''A PAR B;F BRE B'', ''A PAR B'',
      ''F BRE B'']"

definition demo_env :: env where
  "demo_env =
     \<lparr>LOCS = [''BAR'', ''BRE'', ''BUR'', ''PAR'', ''STP'', ''STP/NC''],
      ORDER_VOCABULARY = demo_vocab,
      ORDER_VOCABULARY_TO_IDX = (\<lambda>s. map_option int (index_of demo_vocab s)),
      EOS_IDX = - 1, MAX_SEQ_LEN = 3, MAX_VALID_LEN = 4, N_POWERS = 7\<rparr>"

definition demo_orders :: "string list" where
  "demo_orders = [''A PAR - BUR'', ''A XXX H'', ''F BRE H'']"

definition demo_cands :: "int list list" where
  "demo_cands = [[5, 3], [1, 2], [0]]"

definition big_env :: env where
  "big_env =
     \<lparr>LOCS = [''PAR''],
      ORDER_VOCABULARY = [''A PAR B''],
      ORDER_VOCABULARY_TO_IDX = (\<lambda>s. if s = ''A PAR B'' then Some 0 else None),
      EOS_IDX = - 1, MAX_SEQ_LEN = 17, MAX_VALID_LEN = 469, N_POWERS = 7\<rparr>"

definition big_possible_orders :: "string \<Rightarrow> string list option" where
  "big_possible_orders = (\<lambda>loc. if loc = ''PAR'' then Some (replicate 470 ''A PAR B'') else None)"

definition one_loc :: "string \<Rightarrow> string list option" where
  "one_loc = (\<lambda>p. if p = ''FRANCE'' then Some [''PAR''] else None)"

definition one_build :: "string \<Rightarrow> int option" where
  "one_build = (\<lambda>p. if p = ''FRANCE'' then Some 1 else None)"

definition demo_possible :: "string \<Rightarrow> string list option" where
  "demo_possible =
     (\<lambda>loc. if loc = ''PAR'' then Some [''A PAR B'', ''WAIVE'']
            else if loc = ''BRE'' then Some [''F BRE B''] else None)"

definition demo_locs :: "string \<Rightarrow> string list option" where
  "demo_locs = (\<lambda>p. if p = ''FRANCE'' then Some [''PAR'', ''BRE''] else None)"

definition demo_loc_key :: "string \<Rightarrow> nat" where
  "demo_loc_key loc = (if loc = ''PAR'' then 3 else 1)"

text \<open>
  A small \<^verbatim>\<open>DataFields\<close>: an encoded game is only its validity mask, one row per phase.
  Of four games, one has no data, one has no valid player in its first phase; the two
  others give four rows of the index.
\<close>

definition demo_api :: "bool list list datafields_api" where
  "demo_api =
     \<lparr>df_cat = concat,
      df_valid_power_idxs = (\<lambda>g. g),
      df_is_empty = (\<lambda>g. g = []),
      df_len_x_board_state = length,
      df_field_lens = (\<lambda>g. [(False, length g)])\<rparr>"


definition demo_fresh :: "int \<Rightarrow> bool list list dataset" where
  "demo_fresh n =
     \<lparr>game_ids = [IntId 1, IntId 5, IntId 2, StrId ''c''],
      debug_only_opening_phase = False,
      n_cf_agent_samples = n,
      built = None\<rparr>"

definition demo_built :: "bool list list built" where
  "demo_built =
     \<lparr>game_idxs = [0, 0, 0, 1], phase_idxs = [0, 0, 1, 0], power_idxs = [0, 6, 1, 2],
      x_idxs = [0, 0, 1, 2],
      encoded_games = [[True, False, False, False, False, False, True],
                       [False, True, False, False, False, False, False],
                       [False, False, True, False, False, False, False]],
      num_games = 2, num_phases = 3, num_elements = 4\<rparr>"

definition demo_dataset :: "int \<Rightarrow> bool list list dataset" where
  "demo_dataset n =
     \<lparr>game_ids = [IntId 1, StrId ''c''],
      debug_only_opening_phase = False,
      n_cf_agent_samples = n,
      built = Some demo_built\<rparr>"

text \<open>
  Order lists for \<^verbatim>\<open>encode_power_actions\<close>: one with a coastal order and an unknown
  order, one of two builds, and one that mixes a build with a hold; with candidate
  tables for each.
\<close>

definition coast_orders :: "string list" where
  "coast_orders = [''F STP/NC - BAR'', ''A XXX H'', ''A PAR H'']"

definition coast_cands :: "int list list" where
  "coast_cands = [[1, 0], [5, 2], [3]]"

definition coast_key :: "int \<Rightarrow> nat" where
  "coast_key i = (if i = 2 then 4 else 3)"

definition joint_orders :: "string list" where
  "joint_orders = [''F BRE B'', ''A PAR B'']"

definition joint_cands :: "int list list" where
  "joint_cands = [[5, 6, 4], [], []]"

definition mixed_orders :: "string list" where
  "mixed_orders = [''F BRE B'', ''A PAR H'']"

definition mixed_cands :: "int list list" where
  "mixed_cands = [[6, 0], [6, 0], []]"














section \<open>Properties of \<^verbatim>\<open>smarter_order_index\<close>\<close>

lemma remove_all_no_first:
  "old \<noteq> [] \<Longrightarrow> hd old \<notin> set s \<Longrightarrow> remove_all old s = s"
proof (induction s)
  case Nil
  then show ?case by (simp add: remove_all.simps)
next
  case (Cons c s)
  have "take (length old) (c # s) \<noteq> old"
  proof
    assume "take (length old) (c # s) = old"
    then have "hd old = c" using Cons.prems(1) by (cases old) auto
    with Cons.prems(2) show False by simp
  qed
  with Cons show ?case by (subst remove_all.simps) simp
qed

lemma strip_coasts_no_slash:
  "CHR ''/'' \<notin> set s \<Longrightarrow> strip_coasts s = s"
  by (simp add: strip_coasts_def coast_suffixes_def remove_all_no_first)

text \<open>
  Claim C6. The lookup returns the direct vocabulary id when the order string is a key;
  on a miss it returns the id of the string with the suffixes /NC, /EC, /SC, /WC
  removed when that string is a key; it raises exactly when both lookups miss, and
  what it raises is the \<^verbatim>\<open>KeyError\<close> of the second lookup.
\<close>

theorem smarter_order_index_fallback:
  "(\<forall>i. ORDER_VOCABULARY_TO_IDX e ord = Some i \<longrightarrow> smarter_order_index e ord = Inr i)
   \<and> (\<forall>j. ORDER_VOCABULARY_TO_IDX e ord = None
          \<and> ORDER_VOCABULARY_TO_IDX e (strip_coasts ord) = Some j
        \<longrightarrow> smarter_order_index e ord = Inr j)
   \<and> ((\<exists>err. smarter_order_index e ord = Inl err)
        \<longleftrightarrow> ORDER_VOCABULARY_TO_IDX e ord = None
            \<and> ORDER_VOCABULARY_TO_IDX e (strip_coasts ord) = None)
   \<and> (\<forall>err. smarter_order_index e ord = Inl err \<longrightarrow> err = KeyError)"
  by (auto simp: smarter_order_index_def vocab_lookup_def split: option.splits)

lemma strip_coasts_demo: "strip_coasts ''F STP/NC - BAR'' = ''F STP - BAR''"
  by code_simp

lemma demo_vocab_miss: "ORDER_VOCABULARY_TO_IDX demo_env ''F STP/NC - BAR'' = None"
  by (simp add: demo_env_def demo_vocab_def)

lemma demo_vocab_hit: "ORDER_VOCABULARY_TO_IDX demo_env ''F STP - BAR'' = Some 2"
  by (simp add: demo_env_def demo_vocab_def)

theorem smarter_order_index_fallback_witness:
  "ORDER_VOCABULARY_TO_IDX demo_env ''F STP/NC - BAR'' = None
   \<and> ORDER_VOCABULARY_TO_IDX demo_env (strip_coasts ''F STP/NC - BAR'') = Some 2
   \<and> smarter_order_index demo_env ''F STP/NC - BAR'' = Inr 2"
  using smarter_order_index_fallback [of demo_env "''F STP/NC - BAR''"]
  by (simp add: strip_coasts_demo demo_vocab_miss demo_vocab_hit)

section \<open>Properties of \<^verbatim>\<open>encode_power_actions\<close>\<close>

lemma index_of_None: "index_of xs v = None \<longleftrightarrow> v \<notin> set xs"
  by (induction xs) auto

lemma index_of_Some:
  "index_of xs v = Some c \<Longrightarrow> c < length xs \<and> xs ! c = v \<and> (\<forall>j<c. xs ! j \<noteq> v)"
proof (induction xs arbitrary: c)
  case Nil
  then show ?case by simp
next
  case (Cons y ys)
  show ?case
  proof (cases "y = v")
    case True
    with Cons.prems show ?thesis by simp
  next
    case False
    with Cons.prems obtain c' where c': "index_of ys v = Some c'" "c = Suc c'"
      by auto
    from Cons.IH [OF c'(1)] False c'(2) show ?thesis
      by (auto simp: nth_Cons split: nat.splits)
  qed
qed

lemma smarter_order_index_error:
  "smarter_order_index e ord = Inl err \<Longrightarrow> err = KeyError"
  by (auto simp: smarter_order_index_def vocab_lookup_def split: option.splits)

lemma resolve_each_filter:
  "resolve_each e orders = resolve_each e (filter (\<lambda>ord. \<not> isl (smarter_order_index e ord)) orders)"
proof (induction orders)
  case Nil
  show ?case by simp
next
  case (Cons ord rest)
  show ?case
  proof (cases "smarter_order_index e ord")
    case (Inl err)
    then have "err = KeyError" by (rule smarter_order_index_error)
    with Inl Cons show ?thesis by simp
  next
    case (Inr i)
    with Cons show ?thesis by simp
  qed
qed

lemma resolve_each_total: "\<exists>is. resolve_each e orders = Inr is"
proof (induction orders)
  case Nil
  show ?case by simp
next
  case (Cons ord rest)
  then obtain ids where "resolve_each e rest = Inr ids" by blast
  then show ?case
    by (cases "smarter_order_index e ord") (auto dest: smarter_order_index_error)
qed

lemma fill_labels_length: "length (fst (fill_labels x i ids y)) = length y"
  by (induction x i ids y rule: fill_labels.induct) (auto split: option.splits)

lemma fill_labels_outside:
  "j < i \<Longrightarrow> fst (fill_labels x i ids y) ! j = y ! j"
  by (induction x i ids y rule: fill_labels.induct) (auto split: option.splits)

lemma fill_labels_valid:
  "\<forall>k<length ids. i + k < length x \<and> i + k < length y \<and> ids ! k \<in> set (x ! (i + k))
   \<Longrightarrow> snd (fill_labels x i ids y) = True
       \<and> (\<forall>k<length ids. index_of (x ! (i + k)) (ids ! k)
              = Some (nat (fst (fill_labels x i ids y) ! (i + k)))
            \<and> 0 \<le> fst (fill_labels x i ids y) ! (i + k))
       \<and> (\<forall>j. i + length ids \<le> j \<longrightarrow> fst (fill_labels x i ids y) ! j = y ! j)"
proof (induction x i ids y rule: fill_labels.induct)
  case (1 x i y)
  show ?case by simp
next
  case (2 x i order_idx rest y)
  from "2.prems" have h0: "i < length x" "i < length y" "order_idx \<in> set (x ! i)"
    by force+
  then obtain c where c: "index_of (x ! i) order_idx = Some c"
    using index_of_None [of "x ! i" order_idx] by (cases "index_of (x ! i) order_idx") auto
  have step: "fill_labels x i (order_idx # rest) y = fill_labels x (Suc i) rest (y[i := int c])"
    using h0 c by simp
  have pre: "\<forall>k<length rest. Suc i + k < length x \<and> Suc i + k < length (y[i := int c])
       \<and> rest ! k \<in> set (x ! (Suc i + k))"
  proof (intro allI impI)
    fix k assume "k < length rest"
    then have "Suc k < length (order_idx # rest)" by simp
    with "2.prems" have "i + Suc k < length x \<and> i + Suc k < length y
       \<and> (order_idx # rest) ! Suc k \<in> set (x ! (i + Suc k))" by blast
    then show "Suc i + k < length x \<and> Suc i + k < length (y[i := int c])
       \<and> rest ! k \<in> set (x ! (Suc i + k))" by simp
  qed
  note IH = "2.IH" [OF h0(1) c h0(2) pre]
  let ?r = "fill_labels x (Suc i) rest (y[i := int c])"
  have at_i: "fst ?r ! i = int c"
    using fill_labels_outside [of i "Suc i" x rest "y[i := int c]"] h0(2) by simp
  show ?case
    unfolding step
  proof (intro conjI allI impI)
    show "snd ?r = True" using IH by simp
  next
    fix k assume k: "k < length (order_idx # rest)"
    show "index_of (x ! (i + k)) ((order_idx # rest) ! k) = Some (nat (fst ?r ! (i + k)))"
    proof (cases k)
      case 0
      then show ?thesis using c at_i by simp
    next
      case (Suc k')
      with k have "k' < length rest" by simp
      with IH have "index_of (x ! (Suc i + k')) (rest ! k') = Some (nat (fst ?r ! (Suc i + k')))"
        by blast
      with Suc show ?thesis by simp
    qed
  next
    fix k assume k: "k < length (order_idx # rest)"
    show "0 \<le> fst ?r ! (i + k)"
    proof (cases k)
      case 0
      then show ?thesis using at_i by simp
    next
      case (Suc k')
      with k have "k' < length rest" by simp
      with IH have "0 \<le> fst ?r ! (Suc i + k')" by blast
      with Suc show ?thesis by simp
    qed
  next
    fix j assume "i + length (order_idx # rest) \<le> j"
    then have j: "Suc i + length rest \<le> j" by simp
    with IH have "fst ?r ! j = y[i := int c] ! j" by blast
    with j show "fst ?r ! j = y ! j" by simp
  qed
qed

lemma fill_labels_invalid:
  "\<exists>k<length ids. \<not> (i + k < length x \<and> i + k < length y \<and> ids ! k \<in> set (x ! (i + k)))
   \<Longrightarrow> snd (fill_labels x i ids y) = False"
proof (induction x i ids y rule: fill_labels.induct)
  case (1 x i y)
  then show ?case by simp
next
  case (2 x i order_idx rest y)
  show ?case
  proof (cases "i < length x \<and> i < length y \<and> order_idx \<in> set (x ! i)")
    case False
    then show ?thesis
      using index_of_None [of "x ! i" order_idx] by (auto split: option.splits)
  next
    case True
    then obtain c where c: "index_of (x ! i) order_idx = Some c"
      using index_of_None [of "x ! i" order_idx] by (cases "index_of (x ! i) order_idx") auto
    from "2.prems" obtain k where k: "k < length (order_idx # rest)"
      "\<not> (i + k < length x \<and> i + k < length y
          \<and> (order_idx # rest) ! k \<in> set (x ! (i + k)))" by blast
    with True obtain k' where k': "k = Suc k'" by (cases k) auto
    with k have "\<exists>k<length rest. \<not> (Suc i + k < length x \<and> Suc i + k < length (y[i := int c])
          \<and> rest ! k \<in> set (x ! (Suc i + k)))"
      by (intro exI [of _ k']) simp
    from "2.IH" [OF _ c _ this] True c show ?thesis by simp
  qed
qed

lemma keys_of_Inr:
  "\<forall>x\<in>set xs. f x = Inr (key x) \<Longrightarrow> keys_of f xs = Inr (map (\<lambda>x. (key x, x)) xs)"
  by (induction xs) auto

lemma insort_key_fst_snd:
  "\<forall>z\<in>set zs. fst z = key (snd z)
   \<Longrightarrow> map snd (insort_key fst (key x, x) zs) = insort_key key x (map snd zs)"
  by (induction zs) auto

lemma sort_key_fst_keys:
  "\<forall>z\<in>set (sort_key fst (map (\<lambda>x. (key x, x)) xs)). fst z = key (snd z)"
  by auto

lemma sort_key_pairs:
  "map snd (sort_key fst (map (\<lambda>x. (key x, x)) xs)) = sort_key key xs"
proof (induction xs)
  case Nil
  show ?case by simp
next
  case (Cons x xs)
  show ?case
  proof -
    have "\<forall>z\<in>set (sort_key fst (map (\<lambda>x. (key x, x)) xs)). fst z = key (snd z)"
      by (rule sort_key_fst_keys)
    from insort_key_fst_snd [OF this, of x] Cons show ?thesis by simp
  qed
qed

lemma py_sort_key_Inr:
  "\<forall>x\<in>set xs. f x = Inr (key x) \<Longrightarrow> py_sort_key f xs = Inr (sort_key key xs)"
  using keys_of_Inr [of xs f key] by (simp add: py_sort_key_def sort_key_pairs)

lemma resolve_orders_short:
  "\<exists>ord\<in>set orders. length (split_ws ord) < 3 \<Longrightarrow> resolve_orders e orders = Inr None"
  by (auto simp: resolve_orders_def list_ex_iff short_order_def)

lemma resolve_orders_mixed:
  assumes "\<forall>ord\<in>set orders. 3 \<le> length (split_ws ord)"
    and "\<exists>ord\<in>set orders. split_ws ord ! 2 = ''B''"
    and "\<exists>ord\<in>set orders. split_ws ord ! 2 \<noteq> ''B''"
  shows "resolve_orders e orders = Inl AssertionError"
proof -
  have "\<not> list_ex short_order orders"
    using assms(1) by (auto simp: list_ex_iff short_order_def)
  moreover have "list_ex is_build orders"
    using assms(2) by (auto simp: list_ex_iff is_build_def)
  moreover have "\<not> list_all is_build orders"
    using assms(3) by (auto simp: list_all_iff is_build_def)
  ultimately show ?thesis by (simp add: resolve_orders_def)
qed

lemma resolve_orders_plain:
  assumes "\<forall>ord\<in>set orders. 3 \<le> length (split_ws ord) \<and> split_ws ord ! 2 \<noteq> ''B''"
  shows "resolve_orders e orders
     = (case resolve_each e orders of Inl err \<Rightarrow> Inl err | Inr ids \<Rightarrow> Inr (Some ids))"
proof -
  have "\<not> list_ex short_order orders"
    using assms by (auto simp: list_ex_iff short_order_def)
  moreover have "\<not> list_ex is_build orders"
    using assms by (auto simp: list_ex_iff is_build_def)
  ultimately show ?thesis by (simp add: resolve_orders_def)
qed

lemma demo_encode: "encode_power_actions demo_env demo_orders demo_cands = Inr ([1, 0, - 1], True)"
  by code_simp

lemma demo_encode_kept:
  "encode_power_actions demo_env [''A PAR - BUR'', ''F BRE H''] demo_cands = Inr ([1, 0, - 1], True)"
  by code_simp

lemma demo_fields: "list_all (\<lambda>ord. 3 \<le> length (split_ws ord) \<and> split_ws ord ! 2 \<noteq> ''B'') demo_orders"
  by code_simp

lemma demo_filter: "filter (\<lambda>ord. \<not> isl (smarter_order_index demo_env ord)) demo_orders = [''A PAR - BUR'', ''F BRE H'']"
  by code_simp

lemma demo_short: "length (split_ws ''F BRE'') < 3"
  by code_simp


lemma demo_mixed: "list_all (\<lambda>ord. 3 \<le> length (split_ws ord)) [''A PAR B'', ''F BRE H'']
   \<and> split_ws ''A PAR B'' ! 2 = ''B'' \<and> split_ws ''F BRE H'' ! 2 \<noteq> ''B''"
  by code_simp






text \<open>
  Claim C7. An order list with an order of fewer than three whitespace-separated fields
  gives \<^verbatim>\<open>valid = False\<close> and a label array that is the padding sentinel throughout.
  For a list without build orders, an order that resolves to no vocabulary id, even
  after the fallback, is dropped: the result is the result for the list without it, so
  the sample is not invalidated by it.
\<close>

theorem encode_power_actions_short_or_dropped:
  "((\<exists>ord\<in>set orders. length (split_ws ord) < 3) \<longrightarrow>
      encode_power_actions e orders x = Inr (replicate (MAX_SEQ_LEN e) (EOS_IDX e), False))
   \<and> ((\<forall>ord\<in>set orders. 3 \<le> length (split_ws ord) \<and> split_ws ord ! 2 \<noteq> ''B'') \<longrightarrow>
      encode_power_actions e orders x
        = encode_power_actions e
            (filter (\<lambda>ord. \<not> isl (smarter_order_index e ord)) orders) x)"
proof (intro conjI impI)
  assume "\<exists>ord\<in>set orders. length (split_ws ord) < 3"
  then have "resolve_orders e orders = Inr None" by (rule resolve_orders_short)
  then show "encode_power_actions e orders x
      = Inr (replicate (MAX_SEQ_LEN e) (EOS_IDX e), False)"
    by (simp add: encode_power_actions_def)
next
  let ?kept = "filter (\<lambda>ord. \<not> isl (smarter_order_index e ord)) orders"
  assume a: "\<forall>ord\<in>set orders. 3 \<le> length (split_ws ord) \<and> split_ws ord ! 2 \<noteq> ''B''"
  then have b: "\<forall>ord\<in>set ?kept. 3 \<le> length (split_ws ord) \<and> split_ws ord ! 2 \<noteq> ''B''"
    by simp
  have "resolve_orders e orders = resolve_orders e ?kept"
    unfolding resolve_orders_plain [OF a] resolve_orders_plain [OF b]
    using resolve_each_filter [of e orders] by simp
  then show "encode_power_actions e orders x = encode_power_actions e ?kept x"
    by (simp add: encode_power_actions_def)
qed

theorem encode_power_actions_short_or_dropped_witness:
  "length (split_ws ''F BRE'') < 3
   \<and> encode_power_actions demo_env [''A PAR - BUR'', ''F BRE''] demo_cands
       = Inr (replicate (MAX_SEQ_LEN demo_env) (EOS_IDX demo_env), False)
   \<and> list_all (\<lambda>ord. 3 \<le> length (split_ws ord) \<and> split_ws ord ! 2 \<noteq> ''B'') demo_orders
   \<and> encode_power_actions demo_env demo_orders demo_cands
       = encode_power_actions demo_env [''A PAR - BUR'', ''F BRE H''] demo_cands
   \<and> encode_power_actions demo_env demo_orders demo_cands = Inr ([1, 0, - 1], True)"
  using encode_power_actions_short_or_dropped [of "[''A PAR - BUR'', ''F BRE'']" demo_env demo_cands]
    encode_power_actions_short_or_dropped [of demo_orders demo_env demo_cands]
    demo_fields demo_short demo_encode
  by (simp add: demo_filter list_all_iff)

text \<open>
  Claim C9. When every order has at least three fields, some order's third field is
  \<^verbatim>\<open>B\<close> and some order's third field is not, the call raises the \<^verbatim>\<open>AssertionError\<close> of
  the \<^verbatim>\<open>assert\<close>; it returns no label array and no validity flag.
\<close>

theorem encode_power_actions_mixed_build:
  assumes "\<forall>ord\<in>set orders. 3 \<le> length (split_ws ord)"
    and "\<exists>ord\<in>set orders. split_ws ord ! 2 = ''B''"
    and "\<exists>ord\<in>set orders. split_ws ord ! 2 \<noteq> ''B''"
  shows "encode_power_actions e orders x = Inl AssertionError"
  using resolve_orders_mixed [OF assms, of e] by (simp add: encode_power_actions_def)

theorem encode_power_actions_mixed_build_witness:
  "list_all (\<lambda>ord. 3 \<le> length (split_ws ord)) [''A PAR B'', ''F BRE H'']
   \<and> split_ws ''A PAR B'' ! 2 = ''B'' \<and> split_ws ''F BRE H'' ! 2 \<noteq> ''B''
   \<and> encode_power_actions demo_env [''A PAR B'', ''F BRE H''] demo_cands = Inl AssertionError"
  using encode_power_actions_mixed_build [of "[''A PAR B'', ''F BRE H'']" demo_env demo_cands] demo_mixed
  by (simp add: list_all_iff)

lemma smarter_order_index_spec:
  "smarter_order_index e ord
   = (case spec_resolve e ord of None \<Rightarrow> Inl KeyError | Some i \<Rightarrow> Inr i)"
  by (simp add: smarter_order_index_def vocab_lookup_def spec_resolve_def split: option.splits)

lemma resolve_each_spec:
  "resolve_each e orders = Inr (List.map_filter (spec_resolve e) orders)"
proof (induction orders)
  case Nil
  show ?case by (simp add: List.map_filter_simps)
next
  case (Cons ord rest)
  then show ?case
    by (cases "spec_resolve e ord") (simp_all add: smarter_order_index_spec List.map_filter_simps)
qed

lemma resolve_orders_spec:
  assumes fields: "\<forall>ord\<in>set orders. 3 \<le> length (split_ws ord)"
    and kind: "(\<exists>ord\<in>set orders. split_ws ord ! 2 = ''B'')
               \<longrightarrow> (\<forall>ord\<in>set orders. split_ws ord ! 2 = ''B'')"
  shows "resolve_orders e orders = Inr (spec_order_ids e orders)"
proof -
  have s: "\<not> list_ex short_order orders"
    using fields by (auto simp: list_ex_iff short_order_def)
  have b: "list_ex is_build orders = list_ex (\<lambda>ord. split_ws ord ! 2 = ''B'') orders"
    by (simp add: list_ex_iff is_build_def)
  show ?thesis
  proof (cases "list_ex is_build orders")
    case True
    with kind have "list_all is_build orders"
      by (auto simp: list_ex_iff list_all_iff is_build_def)
    with True s b show ?thesis
      by (simp add: resolve_orders_def spec_order_ids_def vocab_lookup_def split: option.splits)
  next
    case False
    with s b show ?thesis
      by (simp add: resolve_orders_def spec_order_ids_def resolve_each_spec)
  qed
qed

text \<open>
  Claim C4, for the lists that are all builds or free of builds. Let every order have
  at least three fields, let the orders be all builds when one of them is, let \<open>ids\<close> be
  the ids of the list (one id per order that resolves, after the coastal fallback, or
  the one joint id of a build list), and let every id have a location key. The ids are
  put in the order of their location keys (a stable sort). If each sorted id occurs in
  the candidate row of its step, the result is \<^verbatim>\<open>valid = True\<close> with a label array of
  length \<^verbatim>\<open>MAX_SEQ_LEN\<close> whose entry \<open>k\<close> is the (first) position of the \<open>k\<close>-th sorted id
  in row \<open>k\<close> and whose later entries are the sentinel. If some sorted id is absent from
  its row, the result is \<^verbatim>\<open>valid = False\<close>.
\<close>

theorem encode_power_actions_valid:
  assumes fields: "\<forall>ord\<in>set orders. 3 \<le> length (split_ws ord)"
    and kind: "(\<exists>ord\<in>set orders. split_ws ord ! 2 = ''B'')
               \<longrightarrow> (\<forall>ord\<in>set orders. split_ws ord ! 2 = ''B'')"
    and ids: "spec_order_ids e orders = Some ids"
    and keys: "\<forall>i\<in>set ids. loc_key e i = Inr (key i)"
  shows "((\<forall>k<length ids. k < length x \<and> k < MAX_SEQ_LEN e
              \<and> sort_key key ids ! k \<in> set (x ! k)) \<longrightarrow>
          (\<exists>y. encode_power_actions e orders x = Inr (y, True)
             \<and> length y = MAX_SEQ_LEN e
             \<and> (\<forall>k<length ids. 0 \<le> y ! k
                    \<and> index_of (x ! k) (sort_key key ids ! k) = Some (nat (y ! k)))
             \<and> (\<forall>j. length ids \<le> j \<and> j < MAX_SEQ_LEN e \<longrightarrow> y ! j = EOS_IDX e)))
     \<and> ((\<exists>k<length ids. \<not> (k < length x \<and> k < MAX_SEQ_LEN e
              \<and> sort_key key ids ! k \<in> set (x ! k))) \<longrightarrow>
          (\<exists>y. encode_power_actions e orders x = Inr (y, False)))"
proof -
  let ?y0 = "replicate (MAX_SEQ_LEN e) (EOS_IDX e)"
  let ?s = "sort_key key ids"
  let ?r = "fill_labels x 0 ?s ?y0"
  have res: "resolve_orders e orders = Inr (Some ids)"
    using resolve_orders_spec [OF fields kind, of e] ids by simp
  have enc: "encode_power_actions e orders x = Inr ?r"
    using res py_sort_key_Inr [OF keys] by (simp add: encode_power_actions_def)
  have len: "length (fst ?r) = MAX_SEQ_LEN e"
    using fill_labels_length [of x 0 ?s ?y0] by simp
  show ?thesis
  proof (intro conjI impI)
    assume ok: "\<forall>k<length ids. k < length x \<and> k < MAX_SEQ_LEN e \<and> ?s ! k \<in> set (x ! k)"
    then have pre: "\<forall>k<length ?s. 0 + k < length x \<and> 0 + k < length ?y0
        \<and> ?s ! k \<in> set (x ! (0 + k))" by simp
    note v = fill_labels_valid [OF pre]
    have snd_r: "snd ?r = True" using v by blast
    have lab: "\<forall>k<length ids. 0 \<le> fst ?r ! k
        \<and> index_of (x ! k) (?s ! k) = Some (nat (fst ?r ! k))"
      using v by simp
    have pad: "\<forall>j. length ids \<le> j \<and> j < MAX_SEQ_LEN e \<longrightarrow> fst ?r ! j = EOS_IDX e"
      using v by simp
    have "encode_power_actions e orders x = Inr (fst ?r, True)"
      using enc snd_r by (metis prod.collapse)
    with len lab pad
    show "\<exists>y. encode_power_actions e orders x = Inr (y, True)
             \<and> length y = MAX_SEQ_LEN e
             \<and> (\<forall>k<length ids. 0 \<le> y ! k
                    \<and> index_of (x ! k) (?s ! k) = Some (nat (y ! k)))
             \<and> (\<forall>j. length ids \<le> j \<and> j < MAX_SEQ_LEN e \<longrightarrow> y ! j = EOS_IDX e)"
      by blast
  next
    assume "\<exists>k<length ids. \<not> (k < length x \<and> k < MAX_SEQ_LEN e \<and> ?s ! k \<in> set (x ! k))"
    then have "\<exists>k<length ?s. \<not> (0 + k < length x \<and> 0 + k < length ?y0
        \<and> ?s ! k \<in> set (x ! (0 + k)))" by simp
    from fill_labels_invalid [OF this] have "snd ?r = False" .
    with enc have "encode_power_actions e orders x = Inr (fst ?r, False)"
      by (metis prod.collapse)
    then show "\<exists>y. encode_power_actions e orders x = Inr (y, False)" by blast
  qed
qed

lemma coast_fields:
  "list_all (\<lambda>ord. 3 \<le> length (split_ws ord) \<and> split_ws ord ! 2 \<noteq> ''B'') coast_orders"
  by code_simp

lemma coast_ids: "spec_order_ids demo_env coast_orders = Some [2, 0]"
  by code_simp

lemma coast_keys:
  "loc_key demo_env 2 = Inr (coast_key 2) \<and> loc_key demo_env 0 = Inr (coast_key 0)"
  by code_simp

lemma coast_sorted: "sort_key coast_key [2, 0] = [0, 2]"
  by code_simp

lemma coast_present:
  "list_all (\<lambda>k. k < length coast_cands \<and> k < MAX_SEQ_LEN demo_env
     \<and> sort_key coast_key [2, 0] ! k \<in> set (coast_cands ! k)) [0, 1]"
  by code_simp

lemma coast_encode:
  "encode_power_actions demo_env coast_orders coast_cands = Inr ([1, 1, - 1], True)"
  by code_simp

lemma coast_absent: "sort_key coast_key [2, 0] ! 1 \<notin> set ([[0], [5], [2]] ! 1)"
  by code_simp

lemma coast_encode_absent:
  "encode_power_actions demo_env coast_orders [[0], [5], [2]] = Inr ([0, - 1, - 1], False)"
  by code_simp

lemma joint_fields:
  "list_all (\<lambda>ord. 3 \<le> length (split_ws ord) \<and> split_ws ord ! 2 = ''B'') joint_orders"
  by code_simp

lemma joint_ids: "spec_order_ids demo_env joint_orders = Some [4]"
  by code_simp

lemma joint_key: "loc_key demo_env 4 = Inr (coast_key 4)"
  by code_simp

lemma joint_present:
  "0 < length joint_cands \<and> 0 < MAX_SEQ_LEN demo_env
   \<and> sort_key coast_key [4] ! 0 \<in> set (joint_cands ! 0)"
  by code_simp

lemma joint_encode:
  "encode_power_actions demo_env joint_orders joint_cands = Inr ([2, - 1, - 1], True)"
  by code_simp

lemma mixed_eval:
  "list_all (\<lambda>ord. 3 \<le> length (split_ws ord)) mixed_orders
   \<and> smarter_order_index demo_env (mixed_orders ! 0) = Inr 6
   \<and> smarter_order_index demo_env (mixed_orders ! 1) = Inr 0
   \<and> list_all (\<lambda>row. 6 \<in> set row \<and> 0 \<in> set row) (take 2 mixed_cands)
   \<and> encode_power_actions demo_env mixed_orders mixed_cands = Inl AssertionError"
  by code_simp

text \<open>
  A list that mixes a build with another order: both orders have three fields, both
  resolve, both ids stand in both candidate rows, and the call raises the
  \<^verbatim>\<open>AssertionError\<close> of the \<^verbatim>\<open>assert\<close> instead of returning \<^verbatim>\<open>valid = True\<close>.
\<close>

theorem encode_power_actions_valid_counterexample:
  "list_all (\<lambda>ord. 3 \<le> length (split_ws ord)) mixed_orders
   \<and> smarter_order_index demo_env (mixed_orders ! 0) = Inr 6
   \<and> smarter_order_index demo_env (mixed_orders ! 1) = Inr 0
   \<and> list_all (\<lambda>row. 6 \<in> set row \<and> 0 \<in> set row) (take 2 mixed_cands)
   \<and> encode_power_actions demo_env mixed_orders mixed_cands = Inl AssertionError"
  by (rule mixed_eval)

theorem encode_power_actions_valid_witness:
  "list_all (\<lambda>ord. 3 \<le> length (split_ws ord) \<and> split_ws ord ! 2 \<noteq> ''B'') coast_orders
   \<and> spec_order_ids demo_env coast_orders = Some [2, 0]
   \<and> loc_key demo_env 2 = Inr (coast_key 2) \<and> loc_key demo_env 0 = Inr (coast_key 0)
   \<and> sort_key coast_key [2, 0] = [0, 2]
   \<and> (\<exists>y. encode_power_actions demo_env coast_orders coast_cands = Inr (y, True)
         \<and> length y = MAX_SEQ_LEN demo_env
         \<and> index_of (coast_cands ! 0) 0 = Some (nat (y ! 0))
         \<and> index_of (coast_cands ! 1) 2 = Some (nat (y ! 1))
         \<and> y ! 2 = EOS_IDX demo_env)
   \<and> encode_power_actions demo_env coast_orders coast_cands = Inr ([1, 1, - 1], True)
   \<and> (\<exists>y. encode_power_actions demo_env coast_orders [[0], [5], [2]] = Inr (y, False))
   \<and> list_all (\<lambda>ord. 3 \<le> length (split_ws ord) \<and> split_ws ord ! 2 = ''B'') joint_orders
   \<and> spec_order_ids demo_env joint_orders = Some [4]
   \<and> (\<exists>y. encode_power_actions demo_env joint_orders joint_cands = Inr (y, True)
         \<and> index_of (joint_cands ! 0) 4 = Some (nat (y ! 0))
         \<and> y ! 1 = EOS_IDX demo_env \<and> y ! 2 = EOS_IDX demo_env)
   \<and> encode_power_actions demo_env joint_orders joint_cands = Inr ([2, - 1, - 1], True)"
proof -
  have three: "MAX_SEQ_LEN demo_env = 3" by (simp add: demo_env_def)
  have f: "\<forall>ord\<in>set coast_orders. 3 \<le> length (split_ws ord)"
    using coast_fields by (simp add: list_all_iff)
  have nb: "(\<exists>ord\<in>set coast_orders. split_ws ord ! 2 = ''B'')
      \<longrightarrow> (\<forall>ord\<in>set coast_orders. split_ws ord ! 2 = ''B'')"
    using coast_fields by (simp add: list_all_iff)
  have k: "\<forall>i\<in>set [2, 0]. loc_key demo_env i = Inr (coast_key i)"
    using coast_keys by simp
  have ok: "\<forall>k<length [2, 0 :: int]. k < length coast_cands \<and> k < MAX_SEQ_LEN demo_env
      \<and> sort_key coast_key [2, 0] ! k \<in> set (coast_cands ! k)"
    using coast_present by (auto simp: less_Suc_eq numeral_2_eq_2)
  from encode_power_actions_valid [OF f nb coast_ids k, of coast_cands] ok
  obtain y where y: "encode_power_actions demo_env coast_orders coast_cands = Inr (y, True)"
    "length y = MAX_SEQ_LEN demo_env"
    "\<forall>k<length [2, 0 :: int]. 0 \<le> y ! k
        \<and> index_of (coast_cands ! k) (sort_key coast_key [2, 0] ! k) = Some (nat (y ! k))"
    "\<forall>j. length [2, 0 :: int] \<le> j \<and> j < MAX_SEQ_LEN demo_env \<longrightarrow> y ! j = EOS_IDX demo_env"
    by blast
  have y3: "\<forall>k<2. index_of (coast_cands ! k) ([0, 2] ! k) = Some (nat (y ! k))"
    using y(3) unfolding coast_sorted by simp
  from y3 [rule_format, of 0] y3 [rule_format, of 1]
  have y01: "index_of (coast_cands ! 0) 0 = Some (nat (y ! 0))"
    "index_of (coast_cands ! 1) 2 = Some (nat (y ! 1))"
    by simp_all
  from y(4) three have y2: "y ! 2 = EOS_IDX demo_env" by simp
  have a: "\<exists>y. encode_power_actions demo_env coast_orders coast_cands = Inr (y, True)
         \<and> length y = MAX_SEQ_LEN demo_env
         \<and> index_of (coast_cands ! 0) 0 = Some (nat (y ! 0))
         \<and> index_of (coast_cands ! 1) 2 = Some (nat (y ! 1))
         \<and> y ! 2 = EOS_IDX demo_env"
    using y(1,2) y01 y2 by blast
  have bad: "\<exists>k<length [2, 0 :: int]. \<not> (k < length [[0], [5], [2 :: int]]
      \<and> k < MAX_SEQ_LEN demo_env
      \<and> sort_key coast_key [2, 0] ! k \<in> set ([[0], [5], [2]] ! k))"
    using coast_absent by (intro exI [of _ 1]) simp
  from encode_power_actions_valid [OF f nb coast_ids k, of "[[0], [5], [2]]"] bad
  have inv: "\<exists>y. encode_power_actions demo_env coast_orders [[0], [5], [2]] = Inr (y, False)"
    by blast
  have jf: "\<forall>ord\<in>set joint_orders. 3 \<le> length (split_ws ord)"
    using joint_fields by (simp add: list_all_iff)
  have jb: "(\<exists>ord\<in>set joint_orders. split_ws ord ! 2 = ''B'')
      \<longrightarrow> (\<forall>ord\<in>set joint_orders. split_ws ord ! 2 = ''B'')"
    using joint_fields by (simp add: list_all_iff)
  have jk: "\<forall>i\<in>set [4]. loc_key demo_env i = Inr (coast_key i)"
    using joint_key by simp
  have jok: "\<forall>k<length [4 :: int]. k < length joint_cands \<and> k < MAX_SEQ_LEN demo_env
      \<and> sort_key coast_key [4] ! k \<in> set (joint_cands ! k)"
    using joint_present by simp
  from encode_power_actions_valid [OF jf jb joint_ids jk, of joint_cands] jok
  obtain z where z: "encode_power_actions demo_env joint_orders joint_cands = Inr (z, True)"
    "\<forall>k<length [4 :: int]. 0 \<le> z ! k
        \<and> index_of (joint_cands ! k) (sort_key coast_key [4] ! k) = Some (nat (z ! k))"
    "\<forall>j. length [4 :: int] \<le> j \<and> j < MAX_SEQ_LEN demo_env \<longrightarrow> z ! j = EOS_IDX demo_env"
    by blast
  from z(2) have z0: "index_of (joint_cands ! 0) 4 = Some (nat (z ! 0))" by simp
  from z(3) [rule_format, of 1] z(3) [rule_format, of 2] three
  have z12: "z ! 1 = EOS_IDX demo_env" "z ! 2 = EOS_IDX demo_env" by simp_all
  have b: "\<exists>y. encode_power_actions demo_env joint_orders joint_cands = Inr (y, True)
         \<and> index_of (joint_cands ! 0) 4 = Some (nat (y ! 0))
         \<and> y ! 1 = EOS_IDX demo_env \<and> y ! 2 = EOS_IDX demo_env"
    using z(1) z0 z12 by blast
  show ?thesis
    using coast_fields coast_ids coast_keys coast_sorted a coast_encode inv
      joint_fields joint_ids b joint_encode
    by blast
qed

section \<open>Properties of \<^verbatim>\<open>get_valid_orders_impl\<close>\<close>

lemma py_map_Inr:
  "\<forall>x\<in>set xs. f x = Inr (g x) \<Longrightarrow> py_map f xs = Inr (map g xs)"
  by (induction xs) auto

lemma length_combinations: "length (combinations xs r) = length xs choose r"
  by (induction xs r rule: combinations.induct) simp_all

lemma combinations_elem:
  "ys \<in> set (combinations xs r) \<Longrightarrow> length ys = r \<and> set ys \<subseteq> set xs"
  by (induction xs r arbitrary: ys rule: combinations.induct) fastforce+

lemma subseqs_length_zero: "filter (\<lambda>ys. length ys = 0) (subseqs xs) = [[]]"
  by (induction xs) (simp_all add: Let_def filter_map comp_def)

text \<open>
  \<open>combinations\<close> lists exactly the sub-sequences of the given length, in the order of
  \<open>subseqs\<close>.
\<close>

lemma combinations_subseqs:
  "combinations xs r = filter (\<lambda>ys. length ys = r) (subseqs xs)"
proof (induction xs r rule: combinations.induct)
  case (1 xs)
  show ?case using subseqs_length_zero [of xs] by simp
next
  case (2 r)
  show ?case by simp
next
  case (3 x xs r)
  then show ?case by (simp add: Let_def filter_map comp_def)
qed

lemma length_product_lists_const:
  "\<forall>xs\<in>set xss. length xs = k \<Longrightarrow> length (product_lists xss) = k ^ length xss"
  by (induction xss) (simp_all add: length_concat comp_def sum_list_triv)

lemma sum_list_const: "\<forall>x\<in>set xs. f x = (c::nat) \<Longrightarrow> sum_list (map f xs) = length xs * c"
  by (induction xs) simp_all

lemma length_build_orders:
  assumes "\<forall>cs\<in>set cands. length cs = k"
  shows "length (build_orders cands n) = (length cands choose n) * k ^ n"
proof -
  have each: "\<forall>c\<in>set (combinations cands n). length (product_lists c) = k ^ n"
  proof
    fix c assume c: "c \<in> set (combinations cands n)"
    then have "length c = n" "set c \<subseteq> set cands" using combinations_elem by blast+
    with assms have "\<forall>xs\<in>set c. length xs = k" by blast
    from length_product_lists_const [OF this] \<open>length c = n\<close>
    show "length (product_lists c) = k ^ n" by simp
  qed
  have "length (build_orders cands n)
      = sum_list (map (\<lambda>c. length (product_lists c)) (combinations cands n))"
    by (simp add: build_orders_def length_concat comp_def)
  also have "\<dots> = length (combinations cands n) * k ^ n"
    using sum_list_const [OF each] .
  finally show ?thesis by (simp add: length_combinations)
qed

lemma fold_mark:
  "fold (\<lambda>j li. li[j := v]) js li = map (\<lambda>i. if i \<in> set js then v else li ! i) [0..<length li]"
proof (induction js arbitrary: li)
  case Nil
  show ?case by (simp add: map_nth)
next
  case (Cons j js)
  show ?case
    unfolding fold_simps Cons.IH
    by (rule nth_equalityI) (auto simp: nth_list_update)
qed

lemma index_of_mem: "x \<in> set xs \<Longrightarrow> \<exists>i. index_of xs x = Some i"
  using index_of_None [of xs x] by (cases "index_of xs x") auto

lemma mark_locs_Inr:
  assumes "\<forall>loc\<in>set locs. loc \<in> set (LOCS e)"
  shows "mark_locs e locs li
     = Inr (map (\<lambda>j. if \<exists>l\<in>set locs. index_of (LOCS e) l = Some j then - 2 else li ! j)
              [0..<length li])"
proof -
  let ?g = "\<lambda>loc. the (index_of (LOCS e) loc)"
  have "\<forall>loc\<in>set locs. py_index (LOCS e) loc = Inr (?g loc)"
    using assms index_of_mem [of _ "LOCS e"] by (fastforce simp: py_index_def)
  then have m: "py_map (py_index (LOCS e)) locs = Inr (map ?g locs)" by (rule py_map_Inr)
  have eq: "\<And>j. j \<in> set (map ?g locs) \<longleftrightarrow> (\<exists>l\<in>set locs. index_of (LOCS e) l = Some j)"
  proof
    fix j assume "j \<in> set (map ?g locs)"
    then obtain l where l: "l \<in> set locs" "j = ?g l" by auto
    with assms obtain i where "index_of (LOCS e) l = Some i" using index_of_mem by fastforce
    with l show "\<exists>l\<in>set locs. index_of (LOCS e) l = Some j" by auto
  next
    fix j assume "\<exists>l\<in>set locs. index_of (LOCS e) l = Some j"
    then obtain l where "l \<in> set locs" "index_of (LOCS e) l = Some j" by blast
    then have "l \<in> set locs" "?g l = j" by simp_all
    then show "j \<in> set (map ?g locs)" by force
  qed
  show ?thesis
    unfolding mark_locs_def m py_bind_def fold_mark using eq by simp
qed

lemma write_row_pad:
  "length v \<le> MAX_VALID_LEN e
   \<Longrightarrow> write_row e v (replicate (MAX_VALID_LEN e) c) = v @ replicate (MAX_VALID_LEN e - length v) c"
  by (simp add: write_row_def)

lemma builds_core:
  assumes aol: "all_orderable_locations pwr = Some locs"
    and nb: "builds pwr = Some (int n)" and pos: "0 < n"
    and cands: "\<forall>loc\<in>set locs. \<exists>cs. strip_waive apo loc = Some cs \<and> length cs = k"
    and keys: "\<forall>loc\<in>set locs. loc_sort_key e (strip_waive apo) loc = Inr (key loc)"
    and voc: "\<forall>ord\<in>set (build_orders
                 (map (\<lambda>loc. the (strip_waive apo loc)) (sort_key key locs)) n).
               ORDER_VOCABULARY_TO_IDX e ord \<noteq> None"
  shows "get_valid_orders_impl e pwr apo all_orderable_locations builds
      = py_bind (set_rows e 1
          (sort (map (\<lambda>ord. the (ORDER_VOCABULARY_TO_IDX e ord))
             (build_orders (map (\<lambda>loc. the (strip_waive apo loc)) (sort_key key locs)) n)))
          (replicate (MAX_SEQ_LEN e) (replicate (MAX_VALID_LEN e) (EOS_IDX e))))
          (\<lambda>rows. py_bind (mark_locs e (sort_key key locs) (replicate (length (LOCS e)) (- 1)))
          (\<lambda>loc_idxs'. Inr (rows, loc_idxs', int n)))"
    and "length (build_orders (map (\<lambda>loc. the (strip_waive apo loc)) (sort_key key locs)) n)
      = (length locs choose n) * k ^ n"
proof -
  let ?apo = "strip_waive apo"
  let ?sl = "sort_key key locs"
  let ?cs = "map (\<lambda>loc. the (?apo loc)) ?sl"
  have s: "py_sort_key (loc_sort_key e ?apo) locs = Inr ?sl"
    using keys by (rule py_sort_key_Inr)
  have "\<forall>loc\<in>set ?sl. dict_get ?apo loc = Inr (the (?apo loc))"
    using cands by (fastforce simp: dict_get_def)
  then have c: "py_map (dict_get ?apo) ?sl = Inr ?cs" by (rule py_map_Inr)
  have b: "dict_get builds pwr = Inr (int n)" using nb by (simp add: dict_get_def)
  have "\<forall>ord\<in>set (build_orders ?cs n).
      vocab_lookup e ord = Inr (the (ORDER_VOCABULARY_TO_IDX e ord))"
    using voc by (fastforce simp: vocab_lookup_def)
  then have v: "py_map (vocab_lookup e) (build_orders ?cs n)
      = Inr (map (\<lambda>ord. the (ORDER_VOCABULARY_TO_IDX e ord)) (build_orders ?cs n))"
    by (rule py_map_Inr)
  show "get_valid_orders_impl e pwr apo all_orderable_locations builds
      = py_bind (set_rows e 1
          (sort (map (\<lambda>ord. the (ORDER_VOCABULARY_TO_IDX e ord)) (build_orders ?cs n)))
          (replicate (MAX_SEQ_LEN e) (replicate (MAX_VALID_LEN e) (EOS_IDX e))))
          (\<lambda>rows. py_bind (mark_locs e ?sl (replicate (length (LOCS e)) (- 1)))
          (\<lambda>loc_idxs'. Inr (rows, loc_idxs', int n)))"
    using pos by (simp add: get_valid_orders_impl_def aol s c b v py_bind_def Let_def)
  have "\<forall>cs\<in>set ?cs. length cs = k" using cands by fastforce
  from length_build_orders [OF this]
  show "length (build_orders ?cs n) = (length locs choose n) * k ^ n" by simp
qed

text \<open>
  Claim C10. When the player is not a key of the orderable-locations map, the result is
  a candidate table filled with the padding sentinel, a step assignment of \<open>- 1\<close>
  throughout, and the step count 0.
\<close>

theorem get_valid_orders_impl_no_power:
  "all_orderable_locations pwr = None \<Longrightarrow>
   get_valid_orders_impl e pwr all_possible_orders all_orderable_locations builds
     = Inr (replicate (MAX_SEQ_LEN e) (replicate (MAX_VALID_LEN e) (EOS_IDX e)),
            replicate (length (LOCS e)) (- 1), 0)"
  by (simp add: get_valid_orders_impl_def)

theorem get_valid_orders_impl_no_power_witness:
  "one_loc ''ITALY'' = None
   \<and> get_valid_orders_impl demo_env ''ITALY'' big_possible_orders one_loc one_build
     = Inr ([[- 1, - 1, - 1, - 1], [- 1, - 1, - 1, - 1], [- 1, - 1, - 1, - 1]],
            [- 1, - 1, - 1, - 1, - 1, - 1], 0)"
proof -
  have h: "one_loc ''ITALY'' = None" by (simp add: one_loc_def)
  have r: "replicate (MAX_SEQ_LEN demo_env) (replicate (MAX_VALID_LEN demo_env) (EOS_IDX demo_env))
      = [[- 1, - 1, - 1, - 1], [- 1, - 1, - 1, - 1], [- 1, - 1, - 1, - 1]]"
    by code_simp
  have l: "replicate (length (LOCS demo_env)) (- 1 :: int) = [- 1, - 1, - 1, - 1, - 1, - 1]"
    by code_simp
  from get_valid_orders_impl_no_power
    [of one_loc "''ITALY''" demo_env big_possible_orders one_build, OF h]
  show ?thesis using h unfolding r l by simp
qed

text \<open>
  Claim C1, as the code has it. Let \<open>n > 0\<close> builds be owed, let the player have \<open>m\<close>
  orderable locations, each with \<open>k\<close> candidate orders once \<^verbatim>\<open>WAIVE\<close> is removed, each with
  a location key and each a member of \<^verbatim>\<open>LOCS\<close>; let every combination string be a key of
  the vocabulary and let \<open>C(m, n) * k ^ n\<close> be at most \<^verbatim>\<open>MAX_VALID_LEN\<close>. Then the call
  returns; the ids are the vocabulary ids of the strings of \<open>build_orders\<close> (for each
  sub-sequence of \<open>n\<close> of the sorted locations and each choice of one candidate per
  chosen location, the sorted orders joined by a semicolon), there are exactly
  \<open>C(m, n) * k ^ n\<close> of them, and they stand sorted at the start of the first row of the
  table, the rest of the table being the sentinel; every orderable location is marked
  \<open>- 2\<close>, and the step count is \<open>n\<close>.
\<close>

theorem get_valid_orders_impl_builds:
  assumes aol: "all_orderable_locations pwr = Some locs"
    and nb: "builds pwr = Some (int n)" and pos: "0 < n"
    and cands: "\<forall>loc\<in>set locs. \<exists>cs. strip_waive apo loc = Some cs \<and> length cs = k"
    and keys: "\<forall>loc\<in>set locs. loc_sort_key e (strip_waive apo) loc = Inr (key loc)"
    and locs: "\<forall>loc\<in>set locs. loc \<in> set (LOCS e)"
    and voc: "\<forall>ord\<in>set (build_orders
                 (map (\<lambda>loc. the (strip_waive apo loc)) (sort_key key locs)) n).
               ORDER_VOCABULARY_TO_IDX e ord \<noteq> None"
    and bound: "(length locs choose n) * k ^ n \<le> MAX_VALID_LEN e"
    and steps: "0 < MAX_SEQ_LEN e"
  shows "\<exists>ids rows loc_idxs.
      get_valid_orders_impl e pwr apo all_orderable_locations builds
        = Inr (rows, loc_idxs, int n)
      \<and> ids = map (\<lambda>ord. the (ORDER_VOCABULARY_TO_IDX e ord))
                 (build_orders (map (\<lambda>loc. the (strip_waive apo loc)) (sort_key key locs)) n)
      \<and> length ids = (length locs choose n) * k ^ n
      \<and> length rows = MAX_SEQ_LEN e
      \<and> rows ! 0 = sort ids @ replicate (MAX_VALID_LEN e - length ids) (EOS_IDX e)
      \<and> (\<forall>i. 0 < i \<and> i < MAX_SEQ_LEN e \<longrightarrow>
             rows ! i = replicate (MAX_VALID_LEN e) (EOS_IDX e))
      \<and> loc_idxs = map (\<lambda>j. if \<exists>l\<in>set locs. index_of (LOCS e) l = Some j
                              then - 2 else - 1) [0..<length (LOCS e)]"
proof -
  let ?bo = "build_orders (map (\<lambda>loc. the (strip_waive apo loc)) (sort_key key locs)) n"
  let ?ids = "map (\<lambda>ord. the (ORDER_VOCABULARY_TO_IDX e ord)) ?bo"
  let ?init = "replicate (MAX_SEQ_LEN e) (replicate (MAX_VALID_LEN e) (EOS_IDX e))"
  let ?rows = "map (\<lambda>i. if i < 1 then write_row e (sort ?ids) (?init ! i) else ?init ! i)
      [0..<length ?init]"
  let ?li = "map (\<lambda>j. if \<exists>l\<in>set locs. index_of (LOCS e) l = Some j then - 2 else - 1)
      [0..<length (LOCS e)]"
  note core = builds_core [of all_orderable_locations pwr locs builds n apo k e key, OF aol nb pos cands keys voc]
  have len: "length ?ids = (length locs choose n) * k ^ n" using core(2) by simp
  with bound have fit: "fits e (sort ?ids)" by (simp add: fits_def)
  have sr: "set_rows e 1 (sort ?ids) ?init = Inr ?rows"
    using fit by (simp add: set_rows_def)
  have "\<forall>loc\<in>set (sort_key key locs). loc \<in> set (LOCS e)" using locs by simp
  from mark_locs_Inr [OF this, of "replicate (length (LOCS e)) (- 1)"]
  have ml: "mark_locs e (sort_key key locs) (replicate (length (LOCS e)) (- 1)) = Inr ?li"
    by (simp cong: map_cong)
  have res: "get_valid_orders_impl e pwr apo all_orderable_locations builds
      = Inr (?rows, ?li, int n)"
    unfolding core(1) sr ml by (simp add: py_bind_def)
  have r0: "?rows ! 0 = sort ?ids @ replicate (MAX_VALID_LEN e - length ?ids) (EOS_IDX e)"
    using steps bound len write_row_pad [of "sort ?ids" e "EOS_IDX e"] by simp
  have ri: "\<forall>i. 0 < i \<and> i < MAX_SEQ_LEN e \<longrightarrow>
      ?rows ! i = replicate (MAX_VALID_LEN e) (EOS_IDX e)"
    by simp
  have lr: "length ?rows = MAX_SEQ_LEN e" by simp
  from res len lr r0 ri show ?thesis by blast
qed

lemma get_valid_orders_impl_builds_overflow:
  assumes aol: "all_orderable_locations pwr = Some locs"
    and nb: "builds pwr = Some (int n)" and pos: "0 < n"
    and cands: "\<forall>loc\<in>set locs. \<exists>cs. strip_waive apo loc = Some cs \<and> length cs = k"
    and keys: "\<forall>loc\<in>set locs. loc_sort_key e (strip_waive apo) loc = Inr (key loc)"
    and voc: "\<forall>ord\<in>set (build_orders
                 (map (\<lambda>loc. the (strip_waive apo loc)) (sort_key key locs)) n).
               ORDER_VOCABULARY_TO_IDX e ord \<noteq> None"
    and over: "MAX_VALID_LEN e < (length locs choose n) * k ^ n"
    and many: "(length locs choose n) * k ^ n \<noteq> 1"
  shows "get_valid_orders_impl e pwr apo all_orderable_locations builds = Inl RuntimeError"
proof -
  note core = builds_core [of all_orderable_locations pwr locs builds n apo k e key, OF aol nb pos cands keys voc]
  have "\<not> fits e (sort (map (\<lambda>ord. the (ORDER_VOCABULARY_TO_IDX e ord))
      (build_orders (map (\<lambda>loc. the (strip_waive apo loc)) (sort_key key locs)) n)))"
    using core(2) over many by (simp add: fits_def)
  then show ?thesis
    unfolding core(1) by (simp add: set_rows_def py_bind_def)
qed

lemma big_keys: "loc_sort_key big_env (strip_waive big_possible_orders) ''PAR'' = Inr 0"
proof -
  have "split_ws ''A PAR B'' = [''A'', ''PAR'', ''B'']" by code_simp
  then show ?thesis
    by (simp add: loc_sort_key_def strip_waive_def big_possible_orders_def big_env_def
        dict_get_def py_bind_def py_nth_def py_index_def)
qed

lemma build_orders_single: "build_orders [xs] (Suc 0) = map (\<lambda>x. join '';'' (sort [x])) xs"
  by (simp add: build_orders_def comp_def map_concat)

text \<open>
  Without the bound the claim fails: with one orderable location of 470 candidate
  orders and one build owed, the 470 ids do not fit the 469 columns of a row and the
  slice assignment raises.
\<close>

theorem get_valid_orders_impl_builds_counterexample:
  "one_loc ''FRANCE'' = Some [''PAR''] \<and> one_build ''FRANCE'' = Some 1
   \<and> strip_waive big_possible_orders ''PAR'' = Some (replicate 470 ''A PAR B'')
   \<and> MAX_VALID_LEN big_env = 469
   \<and> get_valid_orders_impl big_env ''FRANCE'' big_possible_orders one_loc one_build
       = Inl RuntimeError"
proof -
  have aol: "one_loc ''FRANCE'' = Some [''PAR'']" by (simp add: one_loc_def)
  have nb: "one_build ''FRANCE'' = Some (int 1)" by (simp add: one_build_def)
  have sw: "strip_waive big_possible_orders ''PAR'' = Some (replicate 470 ''A PAR B'')"
    by (simp add: strip_waive_def big_possible_orders_def)
  have cands: "\<forall>loc\<in>set [''PAR''].
      \<exists>cs. strip_waive big_possible_orders loc = Some cs \<and> length cs = 470"
    using sw by simp
  have keys: "\<forall>loc\<in>set [''PAR''].
      loc_sort_key big_env (strip_waive big_possible_orders) loc = Inr ((\<lambda>_. 0) loc)"
    using big_keys by simp
  have voc: "\<forall>ord\<in>set (build_orders
        (map (\<lambda>loc. the (strip_waive big_possible_orders loc)) (sort_key (\<lambda>_. 0 :: nat) [''PAR'']))
        1).
      ORDER_VOCABULARY_TO_IDX big_env ord \<noteq> None"
    by (simp add: sw build_orders_single big_env_def)
  have w: "MAX_VALID_LEN big_env = 469" by (simp add: big_env_def)
  have over: "MAX_VALID_LEN big_env < (length [''PAR''] choose 1) * 470 ^ 1"
    by (simp add: w)
  have many: "(length [''PAR''] choose 1) * 470 ^ 1 \<noteq> (1 :: nat)" by simp
  from get_valid_orders_impl_builds_overflow
    [of one_loc "''FRANCE''" "[''PAR'']" one_build 1 big_possible_orders 470 big_env "\<lambda>_. 0",
     OF aol nb _ cands keys voc over many]
  have "get_valid_orders_impl big_env ''FRANCE'' big_possible_orders one_loc one_build
      = Inl RuntimeError" by simp
  with aol nb sw w show ?thesis by simp
qed

lemma demo_builds_eval:
  "get_valid_orders_impl demo_env ''FRANCE'' demo_possible demo_locs one_build
     = Inr ([[5, 6, - 1, - 1], [- 1, - 1, - 1, - 1], [- 1, - 1, - 1, - 1]],
            [- 1, - 2, - 1, - 2, - 1, - 1], 1)"
  by code_simp

lemma demo_builds_hyps:
  "strip_waive demo_possible ''PAR'' = Some [''A PAR B'']
   \<and> strip_waive demo_possible ''BRE'' = Some [''F BRE B'']
   \<and> loc_sort_key demo_env (strip_waive demo_possible) ''PAR'' = Inr (demo_loc_key ''PAR'')
   \<and> loc_sort_key demo_env (strip_waive demo_possible) ''BRE'' = Inr (demo_loc_key ''BRE'')
   \<and> ''PAR'' \<in> set (LOCS demo_env) \<and> ''BRE'' \<in> set (LOCS demo_env)
   \<and> build_orders (map (\<lambda>loc. the (strip_waive demo_possible loc))
        (sort_key demo_loc_key [''PAR'', ''BRE''])) 1 = [''F BRE B'', ''A PAR B'']
   \<and> ORDER_VOCABULARY_TO_IDX demo_env ''F BRE B'' = Some 6
   \<and> ORDER_VOCABULARY_TO_IDX demo_env ''A PAR B'' = Some 5"
  by code_simp

theorem get_valid_orders_impl_builds_witness:
  "demo_locs ''FRANCE'' = Some [''PAR'', ''BRE''] \<and> one_build ''FRANCE'' = Some 1
   \<and> strip_waive demo_possible ''PAR'' = Some [''A PAR B'']
   \<and> strip_waive demo_possible ''BRE'' = Some [''F BRE B'']
   \<and> (\<exists>rows loc_idxs.
         get_valid_orders_impl demo_env ''FRANCE'' demo_possible demo_locs one_build
           = Inr (rows, loc_idxs, 1)
         \<and> length rows = MAX_SEQ_LEN demo_env
         \<and> rows ! 0 = sort [6, 5] @ replicate (MAX_VALID_LEN demo_env - 2) (EOS_IDX demo_env))
   \<and> get_valid_orders_impl demo_env ''FRANCE'' demo_possible demo_locs one_build
       = Inr ([[5, 6, - 1, - 1], [- 1, - 1, - 1, - 1], [- 1, - 1, - 1, - 1]],
              [- 1, - 2, - 1, - 2, - 1, - 1], 1)"
proof -
  note h = demo_builds_hyps
  have aol: "demo_locs ''FRANCE'' = Some [''PAR'', ''BRE'']" by (simp add: demo_locs_def)
  have nb: "one_build ''FRANCE'' = Some (int 1)" by (simp add: one_build_def)
  have cands: "\<forall>loc\<in>set [''PAR'', ''BRE''].
      \<exists>cs. strip_waive demo_possible loc = Some cs \<and> length cs = 1"
    using h by simp
  have keys: "\<forall>loc\<in>set [''PAR'', ''BRE''].
      loc_sort_key demo_env (strip_waive demo_possible) loc = Inr (demo_loc_key loc)"
    using h by simp
  have locs: "\<forall>loc\<in>set [''PAR'', ''BRE'']. loc \<in> set (LOCS demo_env)"
    using h by simp
  have bo: "build_orders (map (\<lambda>loc. the (strip_waive demo_possible loc))
        (sort_key demo_loc_key [''PAR'', ''BRE''])) 1 = [''F BRE B'', ''A PAR B'']"
    using h by blast
  have voc: "\<forall>ord\<in>set (build_orders (map (\<lambda>loc. the (strip_waive demo_possible loc))
        (sort_key demo_loc_key [''PAR'', ''BRE''])) 1).
      ORDER_VOCABULARY_TO_IDX demo_env ord \<noteq> None"
    unfolding bo using h by simp
  have bound: "(length [''PAR'', ''BRE''] choose 1) * 1 ^ 1 \<le> MAX_VALID_LEN demo_env"
    by (simp add: demo_env_def)
  have steps: "0 < MAX_SEQ_LEN demo_env" by (simp add: demo_env_def)
  from get_valid_orders_impl_builds
    [of demo_locs "''FRANCE''" "[''PAR'', ''BRE'']" one_build 1 demo_possible 1 demo_env
        demo_loc_key, OF aol nb _ cands keys locs voc bound steps]
  obtain ids rows loc_idxs where r:
    "get_valid_orders_impl demo_env ''FRANCE'' demo_possible demo_locs one_build
       = Inr (rows, loc_idxs, int 1)"
    "ids = map (\<lambda>ord. the (ORDER_VOCABULARY_TO_IDX demo_env ord))
       (build_orders (map (\<lambda>loc. the (strip_waive demo_possible loc))
          (sort_key demo_loc_key [''PAR'', ''BRE''])) 1)"
    "length rows = MAX_SEQ_LEN demo_env"
    "rows ! 0 = sort ids @ replicate (MAX_VALID_LEN demo_env - length ids) (EOS_IDX demo_env)"
    by auto
  have ids: "ids = [6, 5]" unfolding r(2) bo using h by simp
  have ex: "\<exists>rows loc_idxs.
         get_valid_orders_impl demo_env ''FRANCE'' demo_possible demo_locs one_build
           = Inr (rows, loc_idxs, 1)
         \<and> length rows = MAX_SEQ_LEN demo_env
         \<and> rows ! 0 = sort [6, 5] @ replicate (MAX_VALID_LEN demo_env - 2) (EOS_IDX demo_env)"
    using r(1,3,4) unfolding ids by (intro exI [of _ rows] exI [of _ loc_idxs]) simp
  with aol nb h demo_builds_eval show ?thesis by simp
qed

section \<open>Properties of \<^verbatim>\<open>from_merge\<close>\<close>

lemma check_mergeable_bad:
  "\<exists>d\<in>set datasets. n_cf_agent_samples d \<noteq> 1 \<or> \<not> preprocessed d
   \<Longrightarrow> check_mergeable datasets = Inl NotImplementedError"
proof (induction datasets)
  case Nil
  then show ?case by simp
next
  case (Cons d ds)
  show ?case
  proof (cases "n_cf_agent_samples d \<noteq> 1 \<or> \<not> preprocessed d")
    case True
    then show ?thesis by (auto simp: preprocessed_def)
  next
    case False
    with Cons.prems have "\<exists>d\<in>set ds. n_cf_agent_samples d \<noteq> 1 \<or> \<not> preprocessed d"
      by auto
    from Cons.IH [OF this] False show ?thesis by (auto simp: preprocessed_def)
  qed
qed

lemma check_mergeable_good:
  "\<forall>d\<in>set datasets. n_cf_agent_samples d = 1 \<and> preprocessed d
   \<Longrightarrow> \<exists>bs. check_mergeable datasets = Inr bs \<and> map built datasets = map Some bs"
proof (induction datasets)
  case Nil
  show ?case by simp
next
  case (Cons d ds)
  then obtain bs where "check_mergeable ds = Inr bs" "map built ds = map Some bs" by auto
  moreover from Cons.prems obtain b where "built d = Some b" "n_cf_agent_samples d = 1"
    by (auto simp: preprocessed_def)
  ultimately show ?case by simp
qed

lemma length_offsets: "length (offsets acc ns) = length ns"
  by (induction ns arbitrary: acc) simp_all

lemma int_sum_list: "int (sum_list (map f xs)) = sum_list (map (\<lambda>x. int (f x)) xs)"
  by (induction xs) simp_all

text \<open>
  Claim C5, for a list of inputs that is not empty. \<^verbatim>\<open>from_merge\<close> raises
  \<^verbatim>\<open>NotImplementedError\<close> whenever some input has \<^verbatim>\<open>n_cf_agent_samples\<close> different from 1
  or is not pre-processed; when the list is not empty and every input is single-sample
  and pre-processed, it returns a pre-processed dataset whose length is the sum of the
  lengths of the inputs.
\<close>

theorem from_merge_length:
  "((\<exists>d\<in>set datasets. n_cf_agent_samples d \<noteq> 1 \<or> \<not> preprocessed d) \<longrightarrow>
      from_merge api datasets = Inl NotImplementedError)
   \<and> (datasets \<noteq> [] \<and> (\<forall>d\<in>set datasets. n_cf_agent_samples d = 1 \<and> preprocessed d) \<longrightarrow>
      (\<exists>m lens. from_merge api datasets = Inr m \<and> preprocessed m
         \<and> map ds_len datasets = map Inr lens
         \<and> ds_len m = Inr (sum_list lens)))"
proof (intro conjI impI)
  assume "\<exists>d\<in>set datasets. n_cf_agent_samples d \<noteq> 1 \<or> \<not> preprocessed d"
  from check_mergeable_bad [OF this]
  show "from_merge api datasets = Inl NotImplementedError"
    by (simp add: from_merge_def py_bind_def)
next
  assume a: "datasets \<noteq> [] \<and> (\<forall>d\<in>set datasets. n_cf_agent_samples d = 1 \<and> preprocessed d)"
  then obtain bs where bs: "check_mergeable datasets = Inr bs" "map built datasets = map Some bs"
    using check_mergeable_good by blast
  from bs(2) have lb: "length bs = length datasets" by (metis length_map)
  with a have ne: "bs \<noteq> []" by auto
  have cat: "\<And>f. torch_cat (map f bs) = Inr (concat (map f bs))"
    using ne by (simp add: torch_cat_def)
  have catz: "\<And>f ns. length ns = length bs \<Longrightarrow> torch_cat (map f (zip bs ns)) = Inr (concat (map f (zip bs ns)))"
    using ne by (auto simp: torch_cat_def)
  let ?m = "\<lparr>game_ids = concat (map game_ids datasets),
              debug_only_opening_phase = False,
              n_cf_agent_samples = 1,
              built = Some \<lparr>game_idxs = concat (map (\<lambda>(b, off). map (\<lambda>v. v + int off) (game_idxs b))
                               (zip bs (offsets 0 (map num_games bs)))),
                            phase_idxs = concat (map phase_idxs bs),
                            power_idxs = concat (map power_idxs bs),
                            x_idxs = concat (map (\<lambda>(b, off). map (\<lambda>v. v + int off) (x_idxs b))
                               (zip bs (offsets 0 (map num_phases bs)))),
                            encoded_games = df_cat api (map encoded_games bs),
                            num_games = sum_list (map num_games bs),
                            num_phases = sum_list (map num_phases bs),
                            num_elements = sum_list (map num_elements bs)\<rparr>\<rparr>"
  have fm: "from_merge api datasets = Inr ?m"
    by (simp add: from_merge_def bs(1) py_bind_def Let_def cat catz length_offsets)
  have pm: "preprocessed ?m" by (simp add: preprocessed_def)
  have lens: "map ds_len datasets = map Inr (map (\<lambda>b. int (num_elements b)) bs)"
  proof (rule nth_equalityI)
    show "length (map ds_len datasets) = length (map Inr (map (\<lambda>b. int (num_elements b)) bs))"
      using lb by simp
  next
    fix i assume "i < length (map ds_len datasets)"
    then have i: "i < length datasets" by simp
    with bs(2) lb have "built (datasets ! i) = Some (bs ! i)"
      by (metis nth_map)
    moreover from a i have "n_cf_agent_samples (datasets ! i) = 1" by simp
    ultimately show "map ds_len datasets ! i = map Inr (map (\<lambda>b. int (num_elements b)) bs) ! i"
      using i lb by (simp add: ds_len_def dunder_len_def)
  qed
  have "0 \<le> int (sum_list (map num_elements bs))" by simp
  then have lm: "ds_len ?m = Inr (sum_list (map (\<lambda>b. int (num_elements b)) bs))"
    by (simp add: ds_len_def dunder_len_def int_sum_list del: of_nat_0_le_iff)
  from fm pm lens lm
  show "\<exists>m lens. from_merge api datasets = Inr m \<and> preprocessed m
         \<and> map ds_len datasets = map Inr lens \<and> ds_len m = Inr (sum_list lens)"
    by blast
qed

text \<open>
  For the empty list of inputs every input is single-sample and pre-processed, and
  \<^verbatim>\<open>torch.cat\<close> of no tensor raises: there is no merged dataset.
\<close>

theorem from_merge_length_counterexample:
  "from_merge demo_api [] = Inl RuntimeError"
  by (simp add: from_merge_def py_bind_def torch_cat_def)

theorem from_merge_length_witness:
  "from_merge demo_api [demo_dataset 1, demo_dataset 2] = Inl NotImplementedError
   \<and> from_merge demo_api [demo_dataset 1, demo_fresh 1] = Inl NotImplementedError
   \<and> ds_len (demo_dataset 1) = Inr 4
   \<and> (\<exists>m. from_merge demo_api [demo_dataset 1, demo_dataset 1] = Inr m \<and> ds_len m = Inr 8)"
proof -
  have bad1: "\<exists>d\<in>set [demo_dataset 1, demo_dataset 2]. n_cf_agent_samples d \<noteq> 1 \<or> \<not> preprocessed d"
    by (simp add: demo_dataset_def)
  have bad2: "\<exists>d\<in>set [demo_dataset 1, demo_fresh 1]. n_cf_agent_samples d \<noteq> 1 \<or> \<not> preprocessed d"
    by (simp add: demo_fresh_def preprocessed_def)
  have good: "[demo_dataset 1, demo_dataset 1] \<noteq> []
     \<and> (\<forall>d\<in>set [demo_dataset 1, demo_dataset 1]. n_cf_agent_samples d = 1 \<and> preprocessed d)"
    by (simp add: demo_dataset_def preprocessed_def)
  have l: "ds_len (demo_dataset 1) = Inr 4"
    by (simp add: ds_len_def dunder_len_def demo_dataset_def demo_built_def)
  from from_merge_length [of "[demo_dataset 1, demo_dataset 2]" demo_api] bad1
  have r1: "from_merge demo_api [demo_dataset 1, demo_dataset 2] = Inl NotImplementedError"
    by blast
  from from_merge_length [of "[demo_dataset 1, demo_fresh 1]" demo_api] bad2
  have r2: "from_merge demo_api [demo_dataset 1, demo_fresh 1] = Inl NotImplementedError"
    by blast
  from from_merge_length [of "[demo_dataset 1, demo_dataset 1]" demo_api] good
  obtain m lens where m: "from_merge demo_api [demo_dataset 1, demo_dataset 1] = Inr m"
    "map ds_len [demo_dataset 1, demo_dataset 1] = map Inr lens" "ds_len m = Inr (sum_list lens)"
    by blast
  from m(2) l have "lens = [4, 4]" by auto
  with m have "\<exists>m. from_merge demo_api [demo_dataset 1, demo_dataset 1] = Inr m \<and> ds_len m = Inr 8"
    by auto
  with r1 r2 l show ?thesis by blast
qed

section \<open>Properties of the \<^verbatim>\<open>Dataset\<close> index\<close>




lemma index_phases_masks:
  "index_phases np g p0 x0 masks = Inr rows \<Longrightarrow> \<forall>msk\<in>set masks. length msk = np"
  by (induction masks arbitrary: p0 x0 rows) (auto split: if_splits sum.splits)






































section \<open>Properties of \<^verbatim>\<open>encode_phase\<close>\<close>

















section \<open>Properties of \<^verbatim>\<open>encode_weighted_sos_scores\<close>\<close>











end
